theory Spec2Isabelle
  imports Complex_Main "HOL-Library.Log_Nat"
begin

section \<open>The MP3 to WAV splitter, embedded\<close>

text \<open>
  The program is one Python function, \<^verbatim>\<open>convert_mp3_to_wav_clips\<close> of
  \<^verbatim>\<open>mp3_to_wav_splitter.py\<close>. It checks its input path, creates the output
  directory, decodes the audio, cuts it into clips of a fixed number of samples, pads
  the last one with zeros and writes every clip to a WAV file.

  The embedding follows the function line by line. Python integers are \<open>int\<close>. The
  samples are kept polymorphic (any type with a \<open>0\<close>): the function slices and pads
  them and performs no arithmetic on them. The filesystem is a map from path strings to
  entries; the calls into pathlib, librosa and soundfile are effects on that map, each
  with a branch for the exception it may raise. Console output (\<^verbatim>\<open>print\<close>,
  \<^verbatim>\<open>tqdm\<close>) is not modelled, apart from the divisions inside the printed
  expressions, which can raise. Memory is unbounded.
\<close>

subsection \<open>Exceptions\<close>

datatype error =
    FileNotFoundError
  | ValueError
  | ZeroDivisionError
  | OverflowError
  | TypeError
  | OSError string
  | LibraryError string

subsection \<open>Strings: \<^verbatim>\<open>str.lower\<close>, \<^verbatim>\<open>str.rfind\<close>, \<^verbatim>\<open>str.split\<close>, the format \<^verbatim>\<open>03d\<close>\<close>

text \<open>
  A path string is a list of 8-bit characters (its UTF-8 bytes). \<^verbatim>\<open>lower\<close> maps
  \<^verbatim>\<open>A\<close> to \<^verbatim>\<open>Z\<close> onto \<^verbatim>\<open>a\<close> to \<^verbatim>\<open>z\<close> and leaves every other
  byte alone; the program only compares the lowered suffix with the ASCII string
  \<^verbatim>\<open>.mp3\<close>.
\<close>

definition lower_char :: "char \<Rightarrow> char" where
  "lower_char c =
     (let n = (of_char c :: nat) in if 65 \<le> n \<and> n \<le> 90 then char_of (n + 32) else c)"

definition lower :: "string \<Rightarrow> string" where
  "lower s = map lower_char s"

text \<open>\<^verbatim>\<open>s.rfind(c)\<close> for a one-character needle: the last index of \<open>c\<close>, or \<open>-1\<close>.\<close>

fun rfind :: "string \<Rightarrow> char \<Rightarrow> int" where
  "rfind [] c = - 1"
| "rfind (x # xs) c =
     (let r = rfind xs c in if 0 \<le> r then r + 1 else if x = c then 0 else - 1)"

text \<open>\<^verbatim>\<open>s.split('/')\<close>: the pieces between the separators, empty ones included.\<close>

fun split_sep :: "string \<Rightarrow> string list" where
  "split_sep [] = [[]]"
| "split_sep (c # cs) =
     (if c = CHR ''/'' then [] # split_sep cs
      else (case split_sep cs of [] \<Rightarrow> [[c]] | w # ws \<Rightarrow> (c # w) # ws))"

text \<open>\<^verbatim>\<open>'/'.join(names)\<close>.\<close>

fun join_sep :: "string list \<Rightarrow> string" where
  "join_sep [] = []"
| "join_sep [x] = x"
| "join_sep (x # y # ys) = x @ CHR ''/'' # join_sep (y # ys)"

definition digit_char :: "nat \<Rightarrow> char" where
  "digit_char d = char_of (48 + d)"

fun digits :: "nat \<Rightarrow> string" where
  "digits n = (if n < 10 then [digit_char n] else digits (n div 10) @ [digit_char (n mod 10)])"

declare digits.simps [simp del]

text \<open>
  The format specification \<^verbatim>\<open>03d\<close>: the sign if negative, then the decimal digits,
  filled with zeros on the left up to a total width of 3. A longer number is not cut.
\<close>

definition format_03d :: "int \<Rightarrow> string" where
  "format_03d n =
     (let ds = digits (nat \<bar>n\<bar>); sign = (if n < 0 then ''-'' else '''')
      in sign @ replicate (3 - length sign - length ds) (CHR ''0'') @ ds)"

text \<open>The value a string of decimal digits denotes (used to state what \<open>format_03d\<close> prints).\<close>

definition decimal_value :: "string \<Rightarrow> nat" where
  "decimal_value s = foldl (\<lambda>a c. 10 * a + (of_char c - 48)) 0 s"

definition is_digit :: "char \<Rightarrow> bool" where
  "is_digit c \<longleftrightarrow> 48 \<le> (of_char c :: nat) \<and> (of_char c :: nat) \<le> 57"

subsection \<open>pathlib: pure POSIX paths\<close>

text \<open>
  \<^verbatim>\<open>Path(s)\<close> on a POSIX system: the root is \<^verbatim>\<open>//\<close> for exactly two leading
  slashes, \<^verbatim>\<open>/\<close> for one or more than two, empty otherwise; the names are the
  pieces of \<open>s\<close> between slashes, without the empty ones and without \<^verbatim>\<open>.\<close>.
\<close>

record pure_path =
  root :: string
  names :: "string list"

definition Path :: "string \<Rightarrow> pure_path" where
  "Path s =
     (let k = length (takeWhile (\<lambda>c. c = CHR ''/'') s)
      in \<lparr> root = (if k = 0 then '''' else if k = 2 then ''//'' else ''/''),
           names = filter (\<lambda>w. w \<noteq> '''' \<and> w \<noteq> ''.'') (split_sep s) \<rparr>)"

text \<open>\<^verbatim>\<open>str(p)\<close>.\<close>

definition str_of :: "pure_path \<Rightarrow> string" where
  "str_of p = (if root p = '''' \<and> names p = [] then ''.'' else root p @ join_sep (names p))"

text \<open>\<^verbatim>\<open>p.name\<close>, \<^verbatim>\<open>p.suffix\<close> and \<^verbatim>\<open>p.stem\<close> (as in CPython 3.4 to 3.13).\<close>

definition name :: "pure_path \<Rightarrow> string" where
  "name p = (if names p = [] then '''' else last (names p))"

definition suffix :: "pure_path \<Rightarrow> string" where
  "suffix p =
     (let nm = name p; i = rfind nm (CHR ''.'')
      in if 0 < i \<and> i < int (length nm) - 1 then drop (nat i) nm else '''')"

definition stem :: "pure_path \<Rightarrow> string" where
  "stem p =
     (let nm = name p; i = rfind nm (CHR ''.'')
      in if 0 < i \<and> i < int (length nm) - 1 then take (nat i) nm else nm)"

text \<open>\<^verbatim>\<open>p / s\<close>: an absolute right operand replaces the left one.\<close>

definition truediv :: "pure_path \<Rightarrow> string \<Rightarrow> pure_path" where
  "truediv p s =
     (let q = Path s
      in if root q \<noteq> '''' then q else \<lparr> root = root p, names = names p @ names q \<rparr>)"

text \<open>The path and its ancestors, as \<^verbatim>\<open>mkdir(parents=True)\<close> visits them.\<close>

definition with_parents :: "pure_path \<Rightarrow> string list" where
  "with_parents p = map (\<lambda>k. str_of \<lparr> root = root p, names = take k (names p) \<rparr>) [0..<Suc (length (names p))]"

subsection \<open>Integer true division and binary64\<close>

text \<open>
  Python's \<^verbatim>\<open>a / b\<close> on two integers is the quotient rounded correctly (to nearest,
  ties to even) to an IEEE 754 binary64 number. It raises ZeroDivisionError for \<open>b = 0\<close>
  and OverflowError when the rounded quotient is too large for binary64. The result is
  kept as the rational number the float denotes.
\<close>

definition round_half_even :: "rat \<Rightarrow> int" where
  "round_half_even x =
     (let f = \<lfloor>x\<rfloor>; d = x - of_int f
      in if d < 1 / 2 then f else if 1 / 2 < d then f + 1 else if even f then f else f + 1)"

text \<open>\<open>\<lfloor>log\<^sub>2 (a / b)\<rfloor>\<close> for positive integers, from the bit lengths.\<close>

definition ilog2_quot :: "int \<Rightarrow> int \<Rightarrow> int" where
  "ilog2_quot a b =
     (let d = bitlen a - bitlen b
      in if (2::rat) powi d \<le> of_int a / of_int b then d else d - 1)"

definition round_binary64 :: "int \<Rightarrow> int \<Rightarrow> rat" where
  "round_binary64 a b =
     (if a = 0 then 0
      else let e = max (- 1074) (ilog2_quot \<bar>a\<bar> \<bar>b\<bar> - 52);
               m = round_half_even (of_int \<bar>a\<bar> / of_int \<bar>b\<bar> / 2 powi e)
           in (if (a < 0) = (b < 0) then 1 else - 1) * of_int m * 2 powi e)"

definition py_true_div :: "int \<Rightarrow> int \<Rightarrow> error + rat" where
  "py_true_div a b =
     (if b = 0 then Inl ZeroDivisionError
      else let r = round_binary64 a b
           in if 2 ^ 1024 \<le> \<bar>r\<bar> then Inl OverflowError else Inr r)"

subsection \<open>numpy: slicing and padding\<close>

text \<open>
  \<^verbatim>\<open>a[start:stop]\<close> on a one-dimensional array: a negative bound counts from the
  end, both bounds are clamped to the array, and the slice is empty when the bounds cross.
\<close>

definition py_slice :: "'a list \<Rightarrow> int \<Rightarrow> int \<Rightarrow> 'a list" where
  "py_slice xs start stop =
     (let n = int (length xs);
          lo = (if start < 0 then max 0 (start + n) else min start n);
          hi = (if stop < 0 then max 0 (stop + n) else min stop n)
      in take (nat (hi - lo)) (drop (nat lo) xs))"

text \<open>
  \<^verbatim>\<open>np.pad(a, (0, k), mode='constant', constant_values=0)\<close>: \<open>k\<close> zeros after \<open>a\<close>.
  numpy wants the pad widths as an array of signed integers; a width of \<open>2\<^sup>6\<^sup>3\<close> or more
  does not fit its \<^verbatim>\<open>int64\<close>, and the call raises TypeError. The program calls it
  with \<open>k > 0\<close> only.
\<close>

definition np_pad :: "'a::zero list \<Rightarrow> int \<Rightarrow> error + 'a list" where
  "np_pad xs k = (if 2 ^ 63 \<le> k then Inl TypeError else Inr (xs @ replicate (nat k) 0))"

subsection \<open>The filesystem and the library calls\<close>

text \<open>
  An entry of the filesystem is a directory, a WAV file with its samples and sample
  rate, or some other file (the MP3 input). A state is the filesystem together with the
  calls made so far into the operating system, librosa and soundfile, each with its
  outcome.

  Why a library call fails (no permission, a full disk, a corrupt stream) is outside
  the program: the environment decides it, from the filesystem and the arguments. It
  also decides what a failing call leaves behind: \<^verbatim>\<open>mkdir\<close> may have created some
  of the ancestors already, and \<^verbatim>\<open>sf.write\<close> opens its file, creating or
  truncating it, before it writes the frames. The format of a \<^verbatim>\<open>.wav\<close> file
  written without a \<^verbatim>\<open>subtype\<close> is 16-bit PCM: the file holds every sample as
  converted by \<open>pcm_16\<close>, which is libsndfile's conversion and a parameter here.
\<close>

datatype 'a entry = Directory | Wav "'a list" int | Other

type_synonym 'a fs = "string \<Rightarrow> 'a entry option"

datatype 'a call =
    Mkdir string "error option"
  | Load string int "error + 'a list"
  | Write string "'a list" int "error option"

record 'a state =
  fs :: "'a fs"
  calls :: "'a call list"

record 'a env =
  stat_fault :: "'a fs \<Rightarrow> string \<Rightarrow> error option"
  mkdir_fault :: "'a fs \<Rightarrow> string \<Rightarrow> (error \<times> nat) option"
  librosa_load :: "'a fs \<Rightarrow> string \<Rightarrow> int \<Rightarrow> error + 'a list"
  sf_write_fault :: "'a fs \<Rightarrow> string \<Rightarrow> 'a list \<Rightarrow> int \<Rightarrow> (error \<times> 'a entry option) option"
  pcm_16 :: "'a \<Rightarrow> 'a"

text \<open>
  \<^verbatim>\<open>p.exists()\<close> (as in CPython 3.4 to 3.13) calls \<^verbatim>\<open>os.stat\<close>. The
  filesystem map holds the paths that \<^verbatim>\<open>os.stat\<close> finds. When \<^verbatim>\<open>os.stat\<close>
  reports that there is no such path, \<^verbatim>\<open>exists\<close> returns False; when it fails in
  another way (a name that is too long, a directory that may not be searched),
  \<^verbatim>\<open>exists\<close> lets that OSError escape. Whether it does is the environment's.
\<close>

definition exists :: "'a env \<Rightarrow> 'a fs \<Rightarrow> pure_path \<Rightarrow> error + bool" where
  "exists env f p =
     (case stat_fault env f (str_of p) of
        Some e \<Rightarrow> Inl e
      | None \<Rightarrow> Inr (f (str_of p) \<noteq> None))"

text \<open>
  \<^verbatim>\<open>p.mkdir(parents=True, exist_ok=True)\<close>: the path and its missing ancestors
  become directories; what exists already stays.
\<close>

definition make_dirs :: "'a fs \<Rightarrow> pure_path \<Rightarrow> 'a fs" where
  "make_dirs f p =
     (\<lambda>q. if q \<in> set (with_parents p) \<and> f q = None then Some Directory else f q)"

text \<open>
  A call that fails has created the first \<open>n\<close> of them at most; pathlib creates the
  ancestors from the top.
\<close>

definition make_some_dirs :: "'a fs \<Rightarrow> pure_path \<Rightarrow> nat \<Rightarrow> 'a fs" where
  "make_some_dirs f p n =
     (\<lambda>q. if q \<in> set (take n (with_parents p)) \<and> f q = None then Some Directory else f q)"

definition mkdir :: "'a env \<Rightarrow> 'a state \<Rightarrow> pure_path \<Rightarrow> error option \<times> 'a state" where
  "mkdir env st p =
     (case mkdir_fault env (fs st) (str_of p) of
        Some (e, n) \<Rightarrow>
          (Some e, \<lparr> fs = make_some_dirs (fs st) p n,
                     calls = calls st @ [Mkdir (str_of p) (Some e)] \<rparr>)
      | None \<Rightarrow>
          (None, \<lparr> fs = make_dirs (fs st) p,
                   calls = calls st @ [Mkdir (str_of p) None] \<rparr>))"

text \<open>\<^verbatim>\<open>librosa.load(p, sr=sample_rate, mono=True)\<close>, the samples only.\<close>

definition load :: "'a env \<Rightarrow> 'a state \<Rightarrow> string \<Rightarrow> int \<Rightarrow> (error + 'a list) \<times> 'a state" where
  "load env st p sample_rate =
     (let r = librosa_load env (fs st) p sample_rate
      in (r, \<lparr> fs = fs st, calls = calls st @ [Load p sample_rate r] \<rparr>))"

text \<open>
  \<^verbatim>\<open>sf.write(p, data, sample_rate)\<close>. A call that returns has put at \<open>p\<close> a WAV
  file with the converted samples. A call that raises \<open>e\<close> leaves at \<open>p\<close> what the
  environment says: nothing, what was there before, or a file that was cut short.
  No other path is touched.
\<close>

definition sf_write ::
  "'a env \<Rightarrow> 'a state \<Rightarrow> string \<Rightarrow> 'a list \<Rightarrow> int \<Rightarrow> error option \<times> 'a state" where
  "sf_write env st p data sample_rate =
     (case sf_write_fault env (fs st) p data sample_rate of
        Some (e, left) \<Rightarrow>
          (Some e, \<lparr> fs = (fs st)(p := left),
                     calls = calls st @ [Write p data sample_rate (Some e)] \<rparr>)
      | None \<Rightarrow>
          (None, \<lparr> fs = (fs st)(p \<mapsto> Wav (map (pcm_16 env) data) sample_rate),
                   calls = calls st @ [Write p data sample_rate None] \<rparr>))"

subsection \<open>The function \<^verbatim>\<open>convert_mp3_to_wav_clips\<close>\<close>

text \<open>Lines 77 to 81: the slice of clip \<open>i\<close>.\<close>

definition raw_clip :: "'a list \<Rightarrow> int \<Rightarrow> int \<Rightarrow> int \<Rightarrow> 'a list" where
  "raw_clip audio_data samples_per_clip total_samples i =
     (let start_sample = i * samples_per_clip;
          end_sample = min ((i + 1) * samples_per_clip) total_samples
      in py_slice audio_data start_sample end_sample)"

text \<open>Lines 84 to 86: the slice, padded when it is short.\<close>

definition clip_data :: "'a::zero list \<Rightarrow> int \<Rightarrow> int \<Rightarrow> int \<Rightarrow> error + 'a list" where
  "clip_data audio_data samples_per_clip total_samples i =
     (let clip = raw_clip audio_data samples_per_clip total_samples i
      in if int (length clip) < samples_per_clip
         then np_pad clip (samples_per_clip - int (length clip))
         else Inr clip)"

text \<open>The clip that these lines produce when \<^verbatim>\<open>np.pad\<close> returns.\<close>

definition padded_clip :: "'a::zero list \<Rightarrow> int \<Rightarrow> int \<Rightarrow> int \<Rightarrow> 'a list" where
  "padded_clip audio_data samples_per_clip total_samples i =
     (let clip = raw_clip audio_data samples_per_clip total_samples i
      in if int (length clip) < samples_per_clip
         then clip @ replicate (nat (samples_per_clip - int (length clip))) 0
         else clip)"

text \<open>Lines 89 and 90: the name and the path of clip \<open>i\<close>.\<close>

definition clip_filename :: "string \<Rightarrow> int \<Rightarrow> string" where
  "clip_filename base_filename i = base_filename @ ''_clip_'' @ format_03d (i + 1) @ ''.wav''"

definition clip_path :: "pure_path \<Rightarrow> string \<Rightarrow> int \<Rightarrow> pure_path" where
  "clip_path output_path base_filename i = truediv output_path (clip_filename base_filename i)"

text \<open>
  Lines 76 to 98: the loop over the clip indices. After each write the program prints
  the clip's duration, a true division that can raise.
\<close>

fun for_clips ::
  "'a::zero env \<Rightarrow> 'a list \<Rightarrow> int \<Rightarrow> int \<Rightarrow> string \<Rightarrow> pure_path \<Rightarrow> int \<Rightarrow>
   int list \<Rightarrow> 'a state \<Rightarrow> string list \<Rightarrow> (error + string list) \<times> 'a state" where
  "for_clips env audio_data samples_per_clip total_samples base_filename output_path sample_rate
     [] st created_files = (Inr created_files, st)"
| "for_clips env audio_data samples_per_clip total_samples base_filename output_path sample_rate
     (i # rest) st created_files =
     (case clip_data audio_data samples_per_clip total_samples i of
        Inl e \<Rightarrow> (Inl e, st)
      | Inr clip \<Rightarrow>
     (let p = str_of (clip_path output_path base_filename i)
      in case sf_write env st p clip sample_rate of
           (Some e, st') \<Rightarrow> (Inl e, st')
         | (None, st') \<Rightarrow>
             (case py_true_div (int (length clip)) sample_rate of
                Inl e \<Rightarrow> (Inl e, st')
              | Inr clip_duration_actual \<Rightarrow>
                  for_clips env audio_data samples_per_clip total_samples base_filename
                    output_path sample_rate rest st' (created_files @ [p]))))"

text \<open>
  The whole function, started on a filesystem with an empty call history. It returns
  the list of created paths or the exception raised, and the state it leaves behind.
\<close>

definition convert_mp3_to_wav_clips ::
  "'a::zero env \<Rightarrow> 'a fs \<Rightarrow> string \<Rightarrow> string \<Rightarrow> int \<Rightarrow> int \<Rightarrow>
   (error + string list) \<times> 'a state" where
  "convert_mp3_to_wav_clips env f input_file output_dir clip_duration sample_rate =
     (let st = \<lparr> fs = f, calls = [] \<rparr>;
          input_path = Path input_file
      in case exists env f input_path of
           Inl e \<Rightarrow> (Inl e, st)
         | Inr found \<Rightarrow>
         if \<not> found then (Inl FileNotFoundError, st)
         else if lower (suffix input_path) \<notin> set [''.mp3''] then (Inl ValueError, st)
         else
           let output_path = Path output_dir
           in case mkdir env st output_path of
                (Some e, st1) \<Rightarrow> (Inl e, st1)
              | (None, st1) \<Rightarrow>
           (case load env st1 input_file sample_rate of
                (Inl e, st2) \<Rightarrow> (Inl e, st2)
              | (Inr audio_data, st2) \<Rightarrow>
           (case py_true_div (int (length audio_data)) sample_rate of
                Inl e \<Rightarrow> (Inl e, st2)
              | Inr duration \<Rightarrow>
           (let samples_per_clip = clip_duration * sample_rate;
                total_samples = int (length audio_data)
            in (case py_true_div total_samples samples_per_clip of
                  Inl e \<Rightarrow> (Inl e, st2)
                | Inr ratio \<Rightarrow>
           (let num_clips = \<lceil>ratio\<rceil>;
                base_filename = stem input_path
            in for_clips env audio_data samples_per_clip total_samples base_filename
                 output_path sample_rate [0..num_clips - 1] st2 []))))))"

subsection \<open>Reading a call history\<close>

text \<open>The writes attempted in a call history, in order: path, samples and sample rate.\<close>

fun write_of :: "'a call \<Rightarrow> (string \<times> 'a list \<times> int) option" where
  "write_of (Write p d r outcome) = Some (p, d, r)"
| "write_of (Mkdir p outcome) = None"
| "write_of (Load p r outcome) = None"

definition write_calls :: "'a call list \<Rightarrow> (string \<times> 'a list \<times> int) list" where
  "write_calls cs = List.map_filter write_of cs"

subsection \<open>A small world to run the function in\<close>

text \<open>
  A filesystem holding \<^verbatim>\<open>track.mp3\<close> and \<^verbatim>\<open>notes.txt\<close>, and an environment in
  which every library call succeeds and the decoder returns a given buffer. Its samples
  are integers that stand for 16-bit values already, and the conversion leaves them as
  they are. In the second environment the write to one given path fails when the disk
  is full, after the file was created: it leaves a WAV file without frames. In the third
  \<^verbatim>\<open>os.stat\<close> fails, as on Linux, for a path with a name of more than 255 bytes.
\<close>

definition demo_fs :: "int fs" where
  "demo_fs = (\<lambda>p. if p = ''track.mp3'' \<or> p = ''notes.txt'' then Some Other else None)"

definition demo_env :: "int list \<Rightarrow> int env" where
  "demo_env buf =
     \<lparr> stat_fault = (\<lambda>f p. None),
       mkdir_fault = (\<lambda>f p. None),
       librosa_load = (\<lambda>f p r. Inr buf),
       sf_write_fault = (\<lambda>f p d r. None),
       pcm_16 = (\<lambda>x. x) \<rparr>"

definition failing_env :: "int list \<Rightarrow> string \<Rightarrow> int env" where
  "failing_env buf bad =
     \<lparr> stat_fault = (\<lambda>f p. None),
       mkdir_fault = (\<lambda>f p. None),
       librosa_load = (\<lambda>f p r. Inr buf),
       sf_write_fault =
         (\<lambda>f p d r. if p = bad then Some (LibraryError ''disk full'', Some (Wav [] r)) else None),
       pcm_16 = (\<lambda>x. x) \<rparr>"

definition name_too_long :: "string \<Rightarrow> bool" where
  "name_too_long p \<longleftrightarrow> list_ex (\<lambda>n. 255 < length n) (split_sep p)"

definition linux_env :: "int list \<Rightarrow> int env" where
  "linux_env buf =
     \<lparr> stat_fault =
         (\<lambda>f p. if name_too_long p then Some (OSError ''File name too long'') else None),
       mkdir_fault = (\<lambda>f p. None),
       librosa_load = (\<lambda>f p r. Inr buf),
       sf_write_fault = (\<lambda>f p d r. None),
       pcm_16 = (\<lambda>x. x) \<rparr>"

text \<open>Another filesystem, with an input whose suffix is in upper case.\<close>

definition other_fs :: "int fs" where
  "other_fs = (\<lambda>p. if p = ''in/song.MP3'' then Some Other else None)"

section \<open>Properties\<close>

subsection \<open>True division: when the ceiling of the float is the ceiling of the quotient\<close>

lemma bitlen_powi_bounds:
  assumes "0 < a"
  shows "(2::rat) powi (bitlen a - 1) \<le> of_int a" and "of_int a < (2::rat) powi (bitlen a)"
proof -
  from assms have b1: "1 \<le> bitlen a"
    by (simp add: bitlen_alt_def)
  from bitlen_bounds [OF assms]
  have lo: "2 ^ nat (bitlen a - 1) \<le> a" and hi: "a < 2 ^ nat (bitlen a)"
    by simp_all
  have "(of_int (2 ^ nat (bitlen a - 1)) :: rat) \<le> of_int a"
    using lo by (simp only: of_int_le_iff)
  then show "(2::rat) powi (bitlen a - 1) \<le> of_int a"
    using b1 by (simp add: power_int_def)
  have "(of_int a :: rat) < of_int (2 ^ nat (bitlen a))"
    using hi by (simp only: of_int_less_iff)
  then show "of_int a < (2::rat) powi (bitlen a)"
    using b1 by (simp add: power_int_def)
qed

lemma ilog2_quot_bounds:
  assumes a: "0 < a" and b: "0 < b"
  shows "(2::rat) powi (ilog2_quot a b) \<le> of_int a / of_int b"
    and "of_int a / of_int b < (2::rat) powi (ilog2_quot a b + 1)"
proof -
  let ?d = "bitlen a - bitlen b"
  let ?q = "of_int a / of_int b :: rat"
  have bpos: "(0::rat) < of_int b" using b by simp
  have apos: "(0::rat) < of_int a" using a by simp
  have lower: "(2::rat) powi (?d - 1) \<le> ?q"
  proof -
    have "(2::rat) powi (?d - 1) * of_int b \<le> 2 powi (?d - 1) * 2 powi (bitlen b)"
      using bitlen_powi_bounds(2) [OF b] by (intro mult_left_mono) simp_all
    also have "\<dots> = 2 powi (bitlen a - 1)"
      by (simp flip: power_int_add)
    also have "\<dots> \<le> of_int a"
      by (rule bitlen_powi_bounds(1) [OF a])
    finally show ?thesis using bpos by (simp add: pos_le_divide_eq)
  qed
  have upper: "?q < (2::rat) powi (?d + 1)"
  proof -
    have "(of_int a :: rat) < 2 powi (bitlen a)"
      by (rule bitlen_powi_bounds(2) [OF a])
    also have "\<dots> = 2 powi (?d + 1) * 2 powi (bitlen b - 1)"
      by (simp flip: power_int_add)
    also have "\<dots> \<le> 2 powi (?d + 1) * of_int b"
      using bitlen_powi_bounds(1) [OF b] by (intro mult_left_mono) simp_all
    finally show ?thesis using bpos by (simp add: pos_divide_less_eq)
  qed
  show "(2::rat) powi (ilog2_quot a b) \<le> ?q"
    using lower by (simp add: ilog2_quot_def Let_def)
  show "?q < (2::rat) powi (ilog2_quot a b + 1)"
    using upper by (auto simp add: ilog2_quot_def Let_def not_le)
qed

lemma round_half_even_le:
  assumes "x \<le> of_int z"
  shows "round_half_even x \<le> z"
proof -
  have fl: "\<lfloor>x\<rfloor> \<le> z" using assms by (simp add: floor_le_iff)
  show ?thesis
  proof (cases "\<lfloor>x\<rfloor> = z")
    case True
    then have "x - of_int \<lfloor>x\<rfloor> \<le> 0" using assms by simp
    then show ?thesis using True by (simp add: round_half_even_def Let_def)
  next
    case False
    with fl have "\<lfloor>x\<rfloor> + 1 \<le> z" by simp
    then show ?thesis using fl by (simp add: round_half_even_def Let_def)
  qed
qed

lemma round_half_even_gt:
  assumes "of_int z + 1 / 2 < x"
  shows "z + 1 \<le> round_half_even x"
proof -
  have fl: "z \<le> \<lfloor>x\<rfloor>" using assms by (simp add: le_floor_iff)
  show ?thesis
  proof (cases "\<lfloor>x\<rfloor> = z")
    case True
    then have "1 / 2 < x - of_int \<lfloor>x\<rfloor>" using assms by simp
    then show ?thesis using True by (simp add: round_half_even_def Let_def)
  next
    case False
    with fl have "z + 1 \<le> \<lfloor>x\<rfloor>" by simp
    then show ?thesis by (simp add: round_half_even_def Let_def)
  qed
qed

lemma round_half_even_small:
  assumes "0 \<le> x" and "x \<le> 1 / 2"
  shows "round_half_even x = 0"
proof -
  have "\<lfloor>x\<rfloor> = 0" using assms by (simp add: floor_eq_iff)
  then show ?thesis using assms by (simp add: round_half_even_def Let_def)
qed



lemma round_scaled_ceiling:
  fixes a s e :: int
  assumes a: "0 < a" and s: "0 < s" and e_le: "e \<le> 0"
    and fine: "of_int s * (2::rat) powi e < 2"
  shows "\<lceil>of_int (round_half_even (of_int a / of_int s / 2 powi e)) * (2::rat) powi e\<rceil>
           = \<lceil>(of_int a :: rat) / of_int s\<rceil>"
    and "0 \<le> round_half_even (of_int a / of_int s / (2::rat) powi e)"
proof -
  define q :: rat where "q = of_int a / of_int s"
  define M :: int where "M = 2 ^ nat (- e)"
  define m where "m = round_half_even (q * of_int M)"
  define k where "k = \<lceil>q\<rceil>"
  have spos: "(0::rat) < of_int s" using s by simp
  have qpos: "0 < q" using a s by (simp add: q_def)
  have Mpos: "0 < M" by (simp add: M_def)
  have MposR: "(0::rat) < of_int M" using Mpos by simp
  have N_eq: "(2::rat) powi e = 1 / of_int M"
    using e_le by (simp add: M_def power_int_def field_simps)
  have m_eq: "round_half_even (of_int a / of_int s / 2 powi e) = m"
    by (simp add: m_def q_def N_eq)
  have sM: "of_int s < 2 * (of_int M :: rat)"
    using fine MposR by (simp add: N_eq pos_divide_less_eq)
  have upper: "m \<le> k * M"
  proof -
    have "q \<le> of_int k" by (simp add: k_def)
    then have "q * of_int M \<le> of_int k * of_int M"
      using MposR by (intro mult_right_mono) simp_all
    then have "q * of_int M \<le> of_int (k * M)" by simp
    then show ?thesis unfolding m_def by (rule round_half_even_le)
  qed
  have lower: "(k - 1) * M + 1 \<le> m"
  proof -
    have "of_int (k - 1) < q" unfolding k_def by linarith
    then have "of_int (k - 1) * of_int s < (of_int a :: rat)"
      using spos by (simp add: q_def pos_less_divide_eq)
    then have "(of_int ((k - 1) * s) :: rat) < of_int a" by simp
    then have "(k - 1) * s < a" by (simp only: of_int_less_iff)
    then have "(k - 1) * s + 1 \<le> a" by simp
    then have "(of_int ((k - 1) * s + 1) :: rat) \<le> of_int a" by (simp only: of_int_le_iff)
    then have "of_int (k - 1) * of_int s + 1 \<le> (of_int a :: rat)" by simp
    then have "(of_int (k - 1) * of_int s + 1) / of_int s \<le> q"
      unfolding q_def using spos by (simp only: divide_right_mono less_imp_le)
    then have "of_int (k - 1) + 1 / of_int s \<le> q"
      using spos by (simp add: add_divide_distrib)
    then have "(of_int (k - 1) + 1 / of_int s) * of_int M \<le> q * of_int M"
      using MposR by (intro mult_right_mono) simp_all
    then have "of_int (k - 1) * of_int M + of_int M / of_int s \<le> q * of_int M"
      by (simp add: distrib_right)
    moreover have "1 / 2 < (of_int M :: rat) / of_int s"
      using sM spos by (simp add: pos_less_divide_eq)
    ultimately have "of_int (k - 1) * of_int M + 1 / 2 < q * of_int M"
      by linarith
    then have "of_int ((k - 1) * M) + 1 / 2 < q * of_int M"
      by (simp only: of_int_mult)
    then show ?thesis unfolding m_def by (rule round_half_even_gt)
  qed
  have r_le: "of_int m / of_int M \<le> (of_int k :: rat)"
  proof -
    have "(of_int m :: rat) \<le> of_int (k * M)" using upper by (simp only: of_int_le_iff)
    then show ?thesis using MposR by (simp add: pos_divide_le_eq)
  qed
  have r_gt: "(of_int k :: rat) - 1 < of_int m / of_int M"
  proof -
    have "(of_int ((k - 1) * M + 1) :: rat) \<le> of_int m" using lower by (simp only: of_int_le_iff)
    then have "(of_int k - 1) * of_int M < (of_int m :: rat)" by simp
    then show ?thesis using MposR by (simp add: pos_less_divide_eq)
  qed
  have "\<lceil>(of_int m :: rat) / of_int M\<rceil> = k"
    using r_gt r_le by (rule ceiling_unique)
  then show "\<lceil>of_int (round_half_even (of_int a / of_int s / 2 powi e)) * (2::rat) powi e\<rceil>
           = \<lceil>(of_int a :: rat) / of_int s\<rceil>"
    by (subst m_eq) (simp add: N_eq k_def q_def)
  have "1 \<le> k" using qpos unfolding k_def by linarith
  then have "0 \<le> (k - 1) * M" using Mpos by simp
  with lower have "0 \<le> m" by linarith
  then show "0 \<le> round_half_even (of_int a / of_int s / (2::rat) powi e)"
    by (simp only: m_eq)
qed


lemma power_int_two_le_imp_le:
  assumes "(2::rat) powi m \<le> 2 powi n"
  shows "m \<le> n"
proof (rule ccontr)
  assume "\<not> m \<le> n"
  then have "n < m" by simp
  then have "(2::rat) powi n < 2 powi m"
    by (rule power_int_strict_increasing) simp
  with assms show False by simp
qed

lemma round_binary64_ceiling:
  assumes a: "0 < a" and s: "0 < s" and abound: "a < 2 ^ 53" and sbound: "s < 2 ^ 1075"
  shows "\<lceil>round_binary64 a s\<rceil> = \<lceil>(of_int a :: rat) / of_int s\<rceil>"
    and "0 \<le> round_binary64 a s"
proof -
  define K :: nat where "K = 1074"
  define q :: rat where "q = of_int a / of_int s"
  define E where "E = ilog2_quot a s"
  define e where "e = max (- int K) (E - 52)"
  have sK: "s < 2 * 2 ^ K"
  proof -
    have "(2::int) ^ 1075 = 2 ^ Suc K" by (simp only: K_def) simp
    then show ?thesis using sbound by (simp only: power_Suc)
  qed
  have spos: "(0::rat) < of_int s" using s by simp
  have apos: "(0::rat) < of_int a" using a by simp
  have q_le_a: "q \<le> of_int a"
  proof -
    have "(1::rat) \<le> of_int s" using s by simp
    then have "(of_int a :: rat) * 1 \<le> of_int a * of_int s"
      using apos by (intro mult_left_mono) simp_all
    then show ?thesis using spos by (simp add: q_def pos_divide_le_eq)
  qed
  have E_lo: "(2::rat) powi E \<le> q"
    unfolding E_def q_def by (rule ilog2_quot_bounds(1) [OF a s])
  have "(of_int a :: rat) < of_int (2 ^ 53)" using abound by (simp only: of_int_less_iff)
  then have a53: "(of_int a :: rat) < 2 ^ 53" by simp
  have "(2::rat) powi E \<le> 2 powi 53"
    using E_lo q_le_a a53 by simp
  then have "E \<le> 53" by (rule power_int_two_le_imp_le)
  moreover have "E \<noteq> 53"
  proof
    assume "E = 53"
    with E_lo q_le_a a53 show False by simp
  qed
  ultimately have e_le: "e \<le> 0" by (simp add: e_def)
  have fine: "of_int s * (2::rat) powi e < 2"
  proof (cases "E - 52 \<le> - int K")
    case True
    then have "e = - int K" by (simp add: e_def)
    then have "(2::rat) powi e = 1 / 2 ^ K"
      by (simp add: power_int_minus_divide)
    moreover have "(of_int s :: rat) < of_int (2 * 2 ^ K)"
      using sK by (simp only: of_int_less_iff)
    ultimately show ?thesis by (simp add: pos_divide_less_eq)
  next
    case False
    then have "e = E - 52" by (simp add: e_def)
    then have "(2::rat) powi e = 2 powi E / 2 ^ 52"
      by (simp add: power_int_diff)
    also have "\<dots> \<le> q / 2 ^ 52" using E_lo by (simp add: divide_right_mono)
    finally have "of_int s * (2::rat) powi e \<le> of_int s * (q / 2 ^ 52)"
      using spos by (intro mult_left_mono) simp_all
    also have "\<dots> = of_int a / 2 ^ 52" using spos by (simp add: q_def)
    also have "\<dots> < 2" using a53 by simp
    finally show ?thesis .
  qed
  have r_eq: "round_binary64 a s = of_int (round_half_even (of_int a / of_int s / 2 powi e)) * 2 powi e"
    using a s by (simp add: round_binary64_def Let_def E_def e_def K_def)
  show "\<lceil>round_binary64 a s\<rceil> = \<lceil>(of_int a :: rat) / of_int s\<rceil>"
    unfolding r_eq by (rule round_scaled_ceiling(1) [OF a s e_le fine])
  show "0 \<le> round_binary64 a s"
    unfolding r_eq using round_scaled_ceiling(2) [OF a s e_le fine] by simp
qed


lemma round_binary64_underflow:
  assumes a: "0 < a" and s: "0 < s" and tiny: "a * 2 ^ 1075 \<le> s"
  shows "round_binary64 a s = 0"
proof -
  define K :: nat where "K = 1074"
  define q :: rat where "q = of_int a / of_int s"
  define E where "E = ilog2_quot a s"
  define e where "e = max (- int K) (E - 52)"
  have sK: "a * (2 * 2 ^ K) \<le> s"
  proof -
    have "(2::int) ^ 1075 = 2 ^ Suc K" by (simp only: K_def) simp
    then show ?thesis using tiny by (simp only: power_Suc)
  qed
  have spos: "(0::rat) < of_int s" using s by simp
  have qpos: "0 < q" using a s by (simp add: q_def)
  have "(of_int (a * (2 * 2 ^ K)) :: rat) \<le> of_int s" using sK by (simp only: of_int_le_iff)
  then have "of_int a * (2 * 2 ^ K) \<le> (of_int s :: rat)" by simp
  then have q_le: "q * 2 ^ K \<le> 1 / 2"
    using spos by (simp add: q_def field_simps)
  have E_lo: "(2::rat) powi E \<le> q"
    unfolding E_def q_def by (rule ilog2_quot_bounds(1) [OF a s])
  have "q \<le> 1 / 2 ^ K"
  proof -
    have "q * 2 ^ K \<le> 1" using q_le by simp
    then show ?thesis by (simp add: pos_le_divide_eq)
  qed
  also have "\<dots> = 2 powi (- int K)" by (simp add: power_int_minus_divide)
  finally have "(2::rat) powi E \<le> 2 powi (- int K)" using E_lo by simp
  then have "E \<le> - int K" by (rule power_int_two_le_imp_le)
  then have e_eq: "e = - int K" by (simp add: e_def)
  have "of_int a / of_int s / (2::rat) powi e = q * 2 ^ K"
    by (simp add: e_eq q_def power_int_minus_divide)
  moreover have "round_half_even (q * 2 ^ K) = 0"
    using qpos q_le by (intro round_half_even_small) simp_all
  ultimately have "round_half_even (of_int a / of_int s / (2::rat) powi e) = 0" by simp
  then show ?thesis
    using a s by (simp add: round_binary64_def Let_def E_def e_def K_def)
qed

lemma py_true_div_ceiling:
  assumes a: "0 \<le> a" and s: "0 < s" and abound: "a < 2 ^ 53" and sbound: "s < 2 ^ 1075"
  shows "\<exists>r. py_true_div a s = Inr r \<and> \<lceil>r\<rceil> = \<lceil>(of_int a :: rat) / of_int s\<rceil>"
proof (cases "a = 0")
  case True
  then show ?thesis using s by (simp add: py_true_div_def round_binary64_def)
next
  case False
  with a have apos: "0 < a" by simp
  let ?r = "round_binary64 a s"
  have c: "\<lceil>?r\<rceil> = \<lceil>(of_int a :: rat) / of_int s\<rceil>" and nn: "0 \<le> ?r"
    by (rule round_binary64_ceiling [OF apos s abound sbound])+
  have "(of_int a :: rat) / of_int s \<le> of_int a"
  proof -
    have "(1::rat) \<le> of_int s" using s by simp
    then have "(of_int a :: rat) * 1 \<le> of_int a * of_int s"
      using apos by (intro mult_left_mono) simp_all
    then show ?thesis using s by (simp add: pos_divide_le_eq)
  qed
  then have "\<lceil>(of_int a :: rat) / of_int s\<rceil> \<le> a" by (simp add: ceiling_le_iff)
  with c have "\<lceil>?r\<rceil> \<le> a" by simp
  then have "?r \<le> of_int a" by (simp add: ceiling_le_iff)
  moreover have "(of_int a :: rat) < of_int (2 ^ 53)" using abound by (simp only: of_int_less_iff)
  ultimately have "?r < 2 ^ 53" by simp
  also have "(2::rat) ^ 53 \<le> 2 ^ 1024" by (rule power_increasing) simp_all
  finally have "\<not> 2 ^ 1024 \<le> \<bar>?r\<bar>" using nn by (simp only: abs_of_nonneg not_le)
  then have "py_true_div a s = Inr ?r"
    using s unfolding py_true_div_def Let_def by (simp only: if_False) simp
  with c show ?thesis by simp
qed

text \<open>
  For a dividend below \<open>2\<^sup>5\<^sup>3\<close> the float never exceeds the ceiling of the quotient,
  whatever the divisor.
\<close>

lemma round_scaled_le:
  fixes a s e :: int
  assumes a: "0 < a" and s: "0 < s" and e_le: "e \<le> 0"
  shows "of_int (round_half_even (of_int a / of_int s / 2 powi e)) * (2::rat) powi e
           \<le> of_int \<lceil>(of_int a :: rat) / of_int s\<rceil>"
proof -
  define q :: rat where "q = of_int a / of_int s"
  define M :: int where "M = 2 ^ nat (- e)"
  define m where "m = round_half_even (q * of_int M)"
  define k where "k = \<lceil>q\<rceil>"
  have Mpos: "0 < M" by (simp add: M_def)
  have MposR: "(0::rat) < of_int M" using Mpos by simp
  have N_eq: "(2::rat) powi e = 1 / of_int M"
    using e_le by (simp add: M_def power_int_def field_simps)
  have m_eq: "round_half_even (of_int a / of_int s / 2 powi e) = m"
    by (simp add: m_def q_def N_eq)
  have upper: "m \<le> k * M"
  proof -
    have "q \<le> of_int k" by (simp add: k_def)
    then have "q * of_int M \<le> of_int k * of_int M"
      using MposR by (intro mult_right_mono) simp_all
    then have "q * of_int M \<le> of_int (k * M)" by simp
    then show ?thesis unfolding m_def by (rule round_half_even_le)
  qed
  have "(of_int m :: rat) \<le> of_int (k * M)" using upper by (simp only: of_int_le_iff)
  then have "of_int m / of_int M \<le> (of_int k :: rat)"
    using MposR by (simp add: pos_divide_le_eq)
  then show ?thesis
    by (subst m_eq) (simp add: N_eq k_def q_def)
qed

lemma round_binary64_le_ceiling:
  assumes a: "0 < a" and s: "0 < s" and abound: "a < 2 ^ 53"
  shows "round_binary64 a s \<le> of_int \<lceil>(of_int a :: rat) / of_int s\<rceil>"
proof -
  define K :: nat where "K = 1074"
  define q :: rat where "q = of_int a / of_int s"
  define E where "E = ilog2_quot a s"
  define e where "e = max (- int K) (E - 52)"
  have spos: "(0::rat) < of_int s" using s by simp
  have apos: "(0::rat) < of_int a" using a by simp
  have q_le_a: "q \<le> of_int a"
  proof -
    have "(1::rat) \<le> of_int s" using s by simp
    then have "(of_int a :: rat) * 1 \<le> of_int a * of_int s"
      using apos by (intro mult_left_mono) simp_all
    then show ?thesis using spos by (simp add: q_def pos_divide_le_eq)
  qed
  have E_lo: "(2::rat) powi E \<le> q"
    unfolding E_def q_def by (rule ilog2_quot_bounds(1) [OF a s])
  have "(of_int a :: rat) < of_int (2 ^ 53)" using abound by (simp only: of_int_less_iff)
  then have a53: "(of_int a :: rat) < 2 ^ 53" by simp
  have "(2::rat) powi E \<le> 2 powi 53"
    using E_lo q_le_a a53 by simp
  then have "E \<le> 53" by (rule power_int_two_le_imp_le)
  moreover have "E \<noteq> 53"
  proof
    assume "E = 53"
    with E_lo q_le_a a53 show False by simp
  qed
  ultimately have e_le: "e \<le> 0" by (simp add: e_def)
  have r_eq: "round_binary64 a s = of_int (round_half_even (of_int a / of_int s / 2 powi e)) * 2 powi e"
    using a s by (simp add: round_binary64_def Let_def E_def e_def K_def)
  show ?thesis
    unfolding r_eq by (rule round_scaled_le [OF a s e_le])
qed

lemma py_true_div_ceiling_le:
  assumes a: "0 \<le> a" and s: "0 < s" and abound: "a < 2 ^ 53"
    and r: "py_true_div a s = Inr r"
  shows "\<lceil>r\<rceil> \<le> \<lceil>(of_int a :: rat) / of_int s\<rceil>"
proof (cases "a = 0")
  case True
  with r s show ?thesis by (simp add: py_true_div_def round_binary64_def)
next
  case False
  with a have apos: "0 < a" by simp
  from r s have "r = round_binary64 a s"
    by (simp add: py_true_div_def Let_def split: if_splits)
  then have "r \<le> of_int \<lceil>(of_int a :: rat) / of_int s\<rceil>"
    using round_binary64_le_ceiling [OF apos s abound] by simp
  then show ?thesis by (simp only: ceiling_le_iff)
qed

subsection \<open>Slices and clips\<close>

lemma take_min_length: "take (min k (length xs)) xs = take k xs"
  by (simp add: min_def)

lemma py_slice_window:
  assumes "0 \<le> t" and "0 < s"
  shows "py_slice buf t (min (t + s) (int (length buf))) = take (nat s) (drop (nat t) buf)"
proof (cases "t \<le> int (length buf)")
  case True
  have "nat (min (t + s) (int (length buf)) - t) = min (nat s) (length (drop (nat t) buf))"
    using True assms by simp
  moreover have "py_slice buf t (min (t + s) (int (length buf)))
      = take (nat (min (t + s) (int (length buf)) - t)) (drop (nat t) buf)"
    using True assms by (simp add: py_slice_def Let_def min_absorb1)
  ultimately show ?thesis
    by (simp only: take_min_length)
next
  case False
  then have "length buf \<le> nat t" by linarith
  moreover have "min (t + s) (int (length buf)) = int (length buf)" using False assms by linarith
  ultimately show ?thesis
    using False assms by (simp add: py_slice_def Let_def)
qed

lemma raw_clip_take_drop:
  assumes "0 < s" and "0 \<le> i"
  shows "raw_clip buf s (int (length buf)) i = take (nat s) (drop (nat (i * s)) buf)"
proof -
  have "0 \<le> i * s" using assms by simp
  moreover have "(i + 1) * s = i * s + s" by (simp add: algebra_simps)
  ultimately show ?thesis
    using assms by (simp add: raw_clip_def Let_def py_slice_window)
qed

lemma length_raw_clip_le:
  assumes "0 < s" and "0 \<le> i"
  shows "int (length (raw_clip buf s (int (length buf)) i)) \<le> s"
  using assms by (simp add: raw_clip_take_drop)

lemma padded_clip_eq:
  assumes "0 < s" and "0 \<le> i"
  shows "padded_clip buf s (int (length buf)) i =
           raw_clip buf s (int (length buf)) i
             @ replicate (nat s - length (raw_clip buf s (int (length buf)) i)) 0"
  using length_raw_clip_le [OF assms, of buf]
  by (auto simp add: padded_clip_def Let_def nat_diff_distrib)

lemma clip_data_cases:
  "clip_data buf s tot i
     = (if 2 ^ 63 \<le> s - int (length (raw_clip buf s tot i)) then Inl TypeError
        else Inr (padded_clip buf s tot i))"
proof -
  have "s - int (length (raw_clip buf s tot i)) \<le> 0 \<Longrightarrow>
      \<not> (2::int) ^ 63 \<le> s - int (length (raw_clip buf s tot i))"
    by simp
  then show ?thesis
    by (auto simp add: clip_data_def padded_clip_def np_pad_def Let_def)
qed

lemma clip_data_Inr: "clip_data buf s tot i = Inr d \<Longrightarrow> d = padded_clip buf s tot i"
  by (simp add: clip_data_cases split: if_splits)

lemma clip_data_small:
  "s < 2 ^ 63 \<Longrightarrow> clip_data buf s tot i = Inr (padded_clip buf s tot i)"
proof -
  assume "s < 2 ^ 63"
  moreover have "s - int (length (raw_clip buf s tot i)) \<le> s" by simp
  ultimately have "\<not> 2 ^ 63 \<le> s - int (length (raw_clip buf s tot i))" by linarith
  then show ?thesis by (simp only: clip_data_cases if_False)
qed

lemma length_padded_clip:
  assumes "0 < s" and "0 \<le> i"
  shows "int (length (padded_clip buf s (int (length buf)) i)) = s"
  using length_raw_clip_le [OF assms, of buf] assms
  by (simp add: padded_clip_eq)

subsection \<open>The loop and the whole run\<close>

lemma sf_write_ok:
  assumes "sf_write_fault env (fs st) p d r = None"
  shows "sf_write env st p d r
           = (None, \<lparr> fs = (fs st)(p \<mapsto> Wav (map (pcm_16 env) d) r),
                      calls = calls st @ [Write p d r None] \<rparr>)"
  using assms by (simp add: sf_write_def)

lemma sf_write_fails:
  assumes "sf_write_fault env (fs st) p d r = Some (e, left)"
  shows "sf_write env st p d r
           = (Some e, \<lparr> fs = (fs st)(p := left), calls = calls st @ [Write p d r (Some e)] \<rparr>)"
  using assms by (simp add: sf_write_def)

lemma for_clips_run:
  fixes out :: pure_path and base :: string and buf :: "'a::zero list" and s tot :: int
    and env :: "'a env" and sr :: int
    and P :: "int \<Rightarrow> string" and C :: "int \<Rightarrow> 'a list" and F :: "'a fs \<Rightarrow> int list \<Rightarrow> 'a fs"
  defines "P \<equiv> \<lambda>i. str_of (clip_path out base i)"
    and "C \<equiv> \<lambda>i. padded_clip buf s tot i"
    and "F \<equiv> \<lambda>f js. foldl (\<lambda>f i. f(P i \<mapsto> Wav (map (pcm_16 env) (C i)) sr)) f js"
  assumes run: "for_clips env buf s tot base out sr js st created = (res, st')"
  shows "\<exists>k\<le>length js.
             (res = Inr (created @ map P js) \<and> k = length js
              \<and> fs st' = F (fs st) (take k js)
              \<and> calls st' = calls st @ map (\<lambda>i. Write (P i) (C i) sr None) js)
           \<or> (\<exists>e left. res = Inl e \<and> k < length js
                  \<and> sf_write_fault env (F (fs st) (take k js)) (P (js ! k)) (C (js ! k)) sr
                      = Some (e, left)
                  \<and> fs st' = (F (fs st) (take k js))(P (js ! k) := left)
                  \<and> calls st' = calls st @ map (\<lambda>i. Write (P i) (C i) sr None) (take k js)
                                   @ [Write (P (js ! k)) (C (js ! k)) sr (Some e)])
           \<or> (\<exists>e. res = Inl e \<and> 0 < k
                  \<and> py_true_div (int (length (C (js ! (k - 1))))) sr = Inl e
                  \<and> fs st' = F (fs st) (take k js)
                  \<and> calls st' = calls st @ map (\<lambda>i. Write (P i) (C i) sr None) (take k js))
           \<or> (\<exists>e. res = Inl e \<and> k < length js
                  \<and> clip_data buf s tot (js ! k) = Inl e
                  \<and> fs st' = F (fs st) (take k js)
                  \<and> calls st' = calls st @ map (\<lambda>i. Write (P i) (C i) sr None) (take k js))"
  using run
proof (induction js arbitrary: st created)
  case Nil
  then show ?case by (simp add: F_def)
next
  case (Cons a js)
  show ?case
  proof (cases "clip_data buf s tot a")
    case (Inl e)
    with Cons.prems have "res = Inl e" and "st' = st" by simp_all
    then show ?thesis
      using Inl by (intro exI [of _ 0]) (simp add: F_def)
  next
    case cd: (Inr d)
    then have d: "d = C a" unfolding C_def by (rule clip_data_Inr)
    show ?thesis
    proof (cases "sf_write_fault env (fs st) (P a) (C a) sr")
      case (Some el)
      obtain e left where el: "el = (e, left)" by (cases el)
      from Cons.prems cd sf_write_fails [OF Some [unfolded el]]
      have "res = Inl e"
        and "st' = \<lparr> fs = (fs st)(P a := left), calls = calls st @ [Write (P a) (C a) sr (Some e)] \<rparr>"
        by (simp_all add: d P_def Let_def)
      then show ?thesis
        using Some el by (intro exI [of _ 0]) (simp add: F_def)
    next
      case None
      let ?st1 = "\<lparr> fs = (fs st)(P a \<mapsto> Wav (map (pcm_16 env) (C a)) sr),
                    calls = calls st @ [Write (P a) (C a) sr None] \<rparr>"
      have F1: "\<And>ks. F (fs ?st1) ks = F (fs st) (a # ks)" by (simp add: F_def)
      show ?thesis
      proof (cases "py_true_div (int (length (C a))) sr")
        case (Inl e)
        from Cons.prems cd sf_write_ok [OF None] Inl
        have "res = Inl e" and "st' = ?st1"
          by (simp_all add: d P_def Let_def)
        then show ?thesis
          using Inl by (intro exI [of _ 1]) (simp add: F_def)
      next
        case (Inr q)
        from Cons.prems cd sf_write_ok [OF None] Inr
        have "for_clips env buf s tot base out sr js ?st1 (created @ [P a]) = (res, st')"
          by (simp add: d P_def Let_def)
        from Cons.IH [OF this] obtain k where k: "k \<le> length js"
          and d: "(res = Inr ((created @ [P a]) @ map P js) \<and> k = length js
                \<and> fs st' = F (fs ?st1) (take k js)
                \<and> calls st' = calls ?st1 @ map (\<lambda>i. Write (P i) (C i) sr None) js)
              \<or> (\<exists>e left. res = Inl e \<and> k < length js
                    \<and> sf_write_fault env (F (fs ?st1) (take k js)) (P (js ! k)) (C (js ! k)) sr
                        = Some (e, left)
                    \<and> fs st' = (F (fs ?st1) (take k js))(P (js ! k) := left)
                    \<and> calls st' = calls ?st1 @ map (\<lambda>i. Write (P i) (C i) sr None) (take k js)
                                     @ [Write (P (js ! k)) (C (js ! k)) sr (Some e)])
              \<or> (\<exists>e. res = Inl e \<and> 0 < k
                    \<and> py_true_div (int (length (C (js ! (k - 1))))) sr = Inl e
                    \<and> fs st' = F (fs ?st1) (take k js)
                    \<and> calls st' = calls ?st1 @ map (\<lambda>i. Write (P i) (C i) sr None) (take k js))
              \<or> (\<exists>e. res = Inl e \<and> k < length js
                    \<and> clip_data buf s tot (js ! k) = Inl e
                    \<and> fs st' = F (fs ?st1) (take k js)
                    \<and> calls st' = calls ?st1 @ map (\<lambda>i. Write (P i) (C i) sr None) (take k js))"
          unfolding F_def by blast
        show ?thesis
        proof (intro exI [of _ "Suc k"] conjI)
          show "Suc k \<le> length (a # js)" using k by simp
          from d [unfolded F1]
          show "(res = Inr (created @ map P (a # js)) \<and> Suc k = length (a # js)
                \<and> fs st' = F (fs st) (take (Suc k) (a # js))
                \<and> calls st' = calls st @ map (\<lambda>i. Write (P i) (C i) sr None) (a # js))
              \<or> (\<exists>e left. res = Inl e \<and> Suc k < length (a # js)
                    \<and> sf_write_fault env (F (fs st) (take (Suc k) (a # js)))
                          (P ((a # js) ! Suc k)) (C ((a # js) ! Suc k)) sr = Some (e, left)
                    \<and> fs st' = (F (fs st) (take (Suc k) (a # js)))(P ((a # js) ! Suc k) := left)
                    \<and> calls st' = calls st @ map (\<lambda>i. Write (P i) (C i) sr None) (take (Suc k) (a # js))
                                     @ [Write (P ((a # js) ! Suc k)) (C ((a # js) ! Suc k)) sr (Some e)])
              \<or> (\<exists>e. res = Inl e \<and> 0 < Suc k
                    \<and> py_true_div (int (length (C ((a # js) ! (Suc k - 1))))) sr = Inl e
                    \<and> fs st' = F (fs st) (take (Suc k) (a # js))
                    \<and> calls st' = calls st @ map (\<lambda>i. Write (P i) (C i) sr None) (take (Suc k) (a # js)))
              \<or> (\<exists>e. res = Inl e \<and> Suc k < length (a # js)
                    \<and> clip_data buf s tot ((a # js) ! Suc k) = Inl e
                    \<and> fs st' = F (fs st) (take (Suc k) (a # js))
                    \<and> calls st' = calls st @ map (\<lambda>i. Write (P i) (C i) sr None) (take (Suc k) (a # js)))"
          proof (elim disjE exE conjE)
            assume "res = Inr ((created @ [P a]) @ map P js)" "k = length js"
              "fs st' = F (fs st) (a # take k js)"
              "calls st' = calls ?st1 @ map (\<lambda>i. Write (P i) (C i) sr None) js"
            then show ?thesis by simp
          next
            fix e left assume "res = Inl e" "k < length js"
              "sf_write_fault env (F (fs st) (a # take k js)) (P (js ! k)) (C (js ! k)) sr
                 = Some (e, left)"
              "fs st' = (F (fs st) (a # take k js))(P (js ! k) := left)"
              "calls st' = calls ?st1 @ map (\<lambda>i. Write (P i) (C i) sr None) (take k js)
                                     @ [Write (P (js ! k)) (C (js ! k)) sr (Some e)]"
            then show ?thesis by simp
          next
            fix e assume "res = Inl e" "0 < k"
              "py_true_div (int (length (C (js ! (k - 1))))) sr = Inl e"
              "fs st' = F (fs st) (a # take k js)"
              "calls st' = calls ?st1 @ map (\<lambda>i. Write (P i) (C i) sr None) (take k js)"
            then show ?thesis by (cases k) simp_all
          next
            fix e assume "res = Inl e" "k < length js"
              "clip_data buf s tot (js ! k) = Inl e"
              "fs st' = F (fs st) (a # take k js)"
              "calls st' = calls ?st1 @ map (\<lambda>i. Write (P i) (C i) sr None) (take k js)"
            then show ?thesis by simp
          qed
        qed
      qed
    qed
  qed
qed

lemma convert_cases:
  assumes run: "convert_mp3_to_wav_clips env f inp out cd sr = (res, st')"
  obtains
    (early) e where "res = Inl e" and "write_calls (calls st') = []"
      and "\<And>p r b. Load p r (Inr b) \<notin> set (calls st')"
  | (nodiv) e buf where "res = Inl e"
      and "st' = \<lparr> fs = make_dirs f (Path out),
                    calls = [Mkdir (str_of (Path out)) None, Load inp sr (Inr buf)] \<rparr>"
      and "py_true_div (int (length buf)) sr = Inl e
           \<or> py_true_div (int (length buf)) (cd * sr) = Inl e"
  | (loop) buf ratio dur where
      "exists env f (Path inp) = Inr True" and "lower (suffix (Path inp)) = ''.mp3''"
      and "mkdir_fault env f (str_of (Path out)) = None"
      and "librosa_load env (make_dirs f (Path out)) inp sr = Inr buf"
      and "py_true_div (int (length buf)) sr = Inr dur"
      and "py_true_div (int (length buf)) (cd * sr) = Inr ratio"
      and "for_clips env buf (cd * sr) (int (length buf)) (stem (Path inp)) (Path out) sr
             [0..\<lceil>ratio\<rceil> - 1]
             \<lparr> fs = make_dirs f (Path out),
               calls = [Mkdir (str_of (Path out)) None, Load inp sr (Inr buf)] \<rparr> []
           = (res, st')"
proof (cases "exists env f (Path inp) = Inr True \<and> lower (suffix (Path inp)) = ''.mp3''")
  case False
  with run have "(\<exists>e. res = Inl e) \<and> calls st' = []"
    by (cases "exists env f (Path inp)")
       (auto simp add: convert_mp3_to_wav_clips_def Let_def split: if_splits)
  then show ?thesis by (auto intro: early simp add: write_calls_def)
next
  case valid: True
  show ?thesis
  proof (cases "mkdir_fault env f (str_of (Path out))")
    case (Some en)
    obtain e n where en: "en = (e, n)" by (cases en)
    with run valid Some have "res = Inl e \<and> calls st' = [Mkdir (str_of (Path out)) (Some e)]"
      by (auto simp add: convert_mp3_to_wav_clips_def mkdir_def Let_def)
    then show ?thesis by (auto intro: early simp add: write_calls_def List.map_filter_simps)
  next
    case mk: None
    show ?thesis
    proof (cases "librosa_load env (make_dirs f (Path out)) inp sr")
      case (Inl e)
      with run valid mk have "res = Inl e
          \<and> calls st' = [Mkdir (str_of (Path out)) None, Load inp sr (Inl e)]"
        by (auto simp add: convert_mp3_to_wav_clips_def mkdir_def load_def Let_def)
      then show ?thesis by (auto intro: early simp add: write_calls_def List.map_filter_simps)
    next
      case ld: (Inr buf)
      show ?thesis
      proof (cases "py_true_div (int (length buf)) sr")
        case (Inl e)
        with run valid mk ld have "res = Inl e
            \<and> st' = \<lparr> fs = make_dirs f (Path out),
                    calls = [Mkdir (str_of (Path out)) None, Load inp sr (Inr buf)] \<rparr>"
          by (auto simp add: convert_mp3_to_wav_clips_def mkdir_def load_def Let_def)
        with Inl show ?thesis by (intro nodiv [of e buf]) simp_all
      next
        case d1: (Inr dur)
        show ?thesis
        proof (cases "py_true_div (int (length buf)) (cd * sr)")
          case (Inl e)
          with run valid mk ld d1 have "res = Inl e
            \<and> st' = \<lparr> fs = make_dirs f (Path out),
                    calls = [Mkdir (str_of (Path out)) None, Load inp sr (Inr buf)] \<rparr>"
            by (auto simp add: convert_mp3_to_wav_clips_def mkdir_def load_def Let_def)
          with Inl show ?thesis by (intro nodiv [of e buf]) simp_all
        next
          case d2: (Inr ratio)
          from run valid mk ld d1 d2
          have "for_clips env buf (cd * sr) (int (length buf)) (stem (Path inp)) (Path out) sr
             [0..\<lceil>ratio\<rceil> - 1]
             \<lparr> fs = make_dirs f (Path out),
               calls = [Mkdir (str_of (Path out)) None, Load inp sr (Inr buf)] \<rparr> []
           = (res, st')"
            by (simp add: convert_mp3_to_wav_clips_def mkdir_def load_def Let_def)
          with valid mk ld d1 d2 show ?thesis by (intro loop) simp_all
        qed
      qed
    qed
  qed
qed

subsection \<open>Path names and clip numbers\<close>

lemma split_sep_not_Nil: "split_sep s \<noteq> []"
  by (induction s) (auto split: list.splits)

lemma split_sep_no_sep: "w \<in> set (split_sep s) \<Longrightarrow> CHR ''/'' \<notin> set w"
proof (induction s arbitrary: w)
  case Nil
  then show ?case by simp
next
  case (Cons c cs)
  then show ?case
    by (cases "split_sep cs") (auto split: if_splits)
qed

lemma split_sep_single: "CHR ''/'' \<notin> set s \<Longrightarrow> split_sep s = [s]"
  by (induction s) auto

lemma names_Path_no_sep: "w \<in> set (names (Path s)) \<Longrightarrow> CHR ''/'' \<notin> set w"
  by (auto simp add: Path_def Let_def dest: split_sep_no_sep)

lemma name_no_sep: "CHR ''/'' \<notin> set (name (Path s))"
proof (cases "names (Path s) = []")
  case True
  then show ?thesis by (simp add: name_def)
next
  case False
  then have "last (names (Path s)) \<in> set (names (Path s))" by simp
  then have "CHR ''/'' \<notin> set (last (names (Path s)))" by (rule names_Path_no_sep)
  then show ?thesis using False by (simp add: name_def)
qed

lemma stem_no_sep: "CHR ''/'' \<notin> set (stem (Path s))"
  using name_no_sep [of s] by (auto simp add: stem_def Let_def dest: in_set_takeD)

lemma of_char_digit_char: "d < 10 \<Longrightarrow> (of_char (digit_char d) :: nat) = 48 + d"
  by (simp add: digit_char_def)

lemma is_digit_digit_char: "d < 10 \<Longrightarrow> is_digit (digit_char d)"
  by (simp add: is_digit_def of_char_digit_char)

lemma digits_all_digits: "c \<in> set (digits n) \<Longrightarrow> is_digit c"
proof (induction n arbitrary: c rule: digits.induct)
  case (1 n)
  show ?case
  proof (cases "n < 10")
    case True
    with "1.prems" show ?thesis by (simp add: digits.simps [of n] is_digit_digit_char)
  next
    case False
    with "1.prems" have "c \<in> set (digits (n div 10)) \<or> c = digit_char (n mod 10)"
      by (simp add: digits.simps [of n]) blast
    then show ?thesis using "1.IH" [OF False] by (auto simp add: is_digit_digit_char)
  qed
qed

lemma decimal_value_snoc:
  "decimal_value (s @ [c]) = 10 * decimal_value s + (of_char c - 48)"
  by (simp add: decimal_value_def)

lemma decimal_value_digits: "decimal_value (digits n) = n"
proof (induction n rule: digits.induct)
  case (1 n)
  show ?case
  proof (cases "n < 10")
    case True
    then show ?thesis
      by (simp add: digits.simps [of n] decimal_value_def of_char_digit_char)
  next
    case False
    then have "decimal_value (digits n) = 10 * (n div 10) + n mod 10"
      using "1.IH" [OF False]
      by (simp add: digits.simps [of n] decimal_value_snoc of_char_digit_char)
    then show ?thesis by simp
  qed
qed

lemma digits_not_Nil: "digits n \<noteq> []"
  by (subst digits.simps) simp

lemma length_digits_lt_1000: "n < 1000 \<Longrightarrow> length (digits n) \<le> 3"
proof -
  assume n: "n < 1000"
  have d1: "\<And>k. k < 10 \<Longrightarrow> length (digits k) = 1" by (subst digits.simps) simp
  show ?thesis
  proof (cases "n < 10")
    case True
    then show ?thesis by (simp add: d1)
  next
    case False
    show ?thesis
    proof (cases "n div 10 < 10")
      case True
      with False show ?thesis by (subst digits.simps) (simp add: d1)
    next
      case f2: False
      from n have "n div 10 div 10 < 10" by simp
      with False f2 show ?thesis
        by (subst digits.simps, simp, subst digits.simps, simp add: d1)
    qed
  qed
qed

lemma decimal_value_zeros: "decimal_value (replicate k (CHR ''0'') @ s) = decimal_value s"
  by (induction k) (simp_all add: decimal_value_def)

lemma format_03d_nonneg:
  assumes "0 \<le> n"
  shows "format_03d n = replicate (3 - length (digits (nat n))) (CHR ''0'') @ digits (nat n)"
  using assms by (simp add: format_03d_def Let_def)

lemma decimal_value_format_03d: "0 \<le> n \<Longrightarrow> decimal_value (format_03d n) = nat n"
  by (simp add: format_03d_nonneg decimal_value_zeros decimal_value_digits)

lemma format_03d_all_digits: "0 \<le> n \<Longrightarrow> c \<in> set (format_03d n) \<Longrightarrow> is_digit c"
  by (auto simp add: format_03d_nonneg is_digit_def dest: digits_all_digits)

lemma length_format_03d: "0 \<le> n \<Longrightarrow> 3 \<le> length (format_03d n)"
  by (simp add: format_03d_nonneg)

lemma length_format_03d_small: "0 \<le> n \<Longrightarrow> n < 1000 \<Longrightarrow> length (format_03d n) = 3"
  using length_digits_lt_1000 [of "nat n"] digits_not_Nil [of "nat n"]
  by (simp add: format_03d_nonneg)

lemma format_03d_inj:
  assumes "0 \<le> m" and "0 \<le> n" and "format_03d m = format_03d n"
  shows "m = n"
proof -
  have "nat m = nat n"
    using decimal_value_format_03d [OF assms(1)] decimal_value_format_03d [OF assms(2)] assms(3)
    by simp
  with assms show ?thesis by simp
qed

lemma clip_filename_no_sep:
  assumes "CHR ''/'' \<notin> set base" and "0 \<le> i"
  shows "CHR ''/'' \<notin> set (clip_filename base i)"
proof -
  have "\<And>c. c \<in> set (format_03d (i + 1)) \<Longrightarrow> c \<noteq> CHR ''/''"
  proof -
    fix c assume "c \<in> set (format_03d (i + 1))"
    then have "is_digit c" using assms(2) by (intro format_03d_all_digits [of "i + 1"]) simp_all
    then show "c \<noteq> CHR ''/''" by (auto simp add: is_digit_def)
  qed
  then show ?thesis using assms(1) by (auto simp add: clip_filename_def)
qed

lemma Path_single:
  assumes "CHR ''/'' \<notin> set s" and "s \<noteq> ''''" and "s \<noteq> ''.''"
  shows "Path s = \<lparr> root = '''', names = [s] \<rparr>"
proof -
  have "takeWhile (\<lambda>c. c = CHR ''/'') s = []"
    using assms(1,2) by (cases s) auto
  then show ?thesis
    using assms by (simp add: Path_def Let_def split_sep_single)
qed

lemma clip_filename_shape: "clip_filename base i \<noteq> '''' \<and> clip_filename base i \<noteq> ''.''"
proof -
  have "length (clip_filename base i) \<ge> 10" by (simp add: clip_filename_def)
  then show ?thesis by auto
qed

lemma clip_path_eq:
  assumes "CHR ''/'' \<notin> set base" and "0 \<le> i"
  shows "clip_path out base i = \<lparr> root = root out, names = names out @ [clip_filename base i] \<rparr>"
  using Path_single [OF clip_filename_no_sep [OF assms]] clip_filename_shape [of base i]
  by (simp add: clip_path_def truediv_def Let_def)

lemma join_sep_snoc: "ns \<noteq> [] \<Longrightarrow> join_sep (ns @ [x]) = join_sep ns @ CHR ''/'' # x"
  by (induction ns rule: join_sep.induct) auto

lemma join_sep_snoc_inj: "join_sep (ns @ [x]) = join_sep (ns @ [y]) \<Longrightarrow> x = y"
  by (cases "ns = []") (simp_all add: join_sep_snoc)

lemma str_of_child_inj:
  assumes "str_of \<lparr> root = r, names = ns @ [x] \<rparr> = str_of \<lparr> root = r, names = ns @ [y] \<rparr>"
  shows "x = y"
  using assms by (simp add: str_of_def join_sep_snoc_inj)

lemma clip_filename_inj:
  assumes "0 \<le> i" and "0 \<le> j" and "clip_filename base i = clip_filename base j"
  shows "i = j"
proof -
  from assms(3) have "format_03d (i + 1) = format_03d (j + 1)"
    by (simp add: clip_filename_def)
  then have "i + 1 = j + 1" using assms(1,2) by (intro format_03d_inj) simp_all
  then show ?thesis by simp
qed

lemma clip_file_inj:
  assumes "CHR ''/'' \<notin> set base" and "0 \<le> i" and "0 \<le> j"
    and "str_of (clip_path out base i) = str_of (clip_path out base j)"
  shows "i = j"
proof -
  from assms have "clip_filename base i = clip_filename base j"
    by (simp add: clip_path_eq) (rule str_of_child_inj)
  then show ?thesis using assms(2,3) by (rule clip_filename_inj [rotated 2])
qed

lemma upto0_map_int: "[0..n - 1] = map int [0..<nat n]"
  by (rule nth_equalityI) simp_all

lemma take_upto0: "k \<le> nat n \<Longrightarrow> take k [0..n - 1] = [0..int k - 1]"
  by (simp add: upto0_map_int take_map)

lemma nth_upto0: "k < nat n \<Longrightarrow> [0..n - 1] ! k = int k"
  by (simp add: upto0_map_int)

lemma write_calls_Nil: "write_calls [] = []"
  by (simp add: write_calls_def List.map_filter_simps)

lemma write_calls_append: "write_calls (xs @ ys) = write_calls xs @ write_calls ys"
  by (simp add: write_calls_def List.map_filter_def)

lemma write_calls_Write: "write_calls (Write p d r oc # cs) = (p, d, r) # write_calls cs"
  by (simp add: write_calls_def List.map_filter_simps)

lemma write_calls_Mkdir: "write_calls (Mkdir p oc # cs) = write_calls cs"
  by (simp add: write_calls_def List.map_filter_simps)

lemma write_calls_Load: "write_calls (Load p r oc # cs) = write_calls cs"
  by (simp add: write_calls_def List.map_filter_simps)

lemmas write_calls_simps =
  write_calls_Nil write_calls_append write_calls_Write write_calls_Mkdir write_calls_Load

lemma write_calls_map:
  "write_calls (map (\<lambda>i. Write (P i) (C i) r (oc i)) js) = map (\<lambda>i. (P i, C i, r)) js"
  by (induction js) (simp_all add: write_calls_simps)

lemma Write_in_write_calls: "Write p d r oc \<in> set cs \<Longrightarrow> (p, d, r) \<in> set (write_calls cs)"
proof (induction cs)
  case Nil
  then show ?case by simp
next
  case (Cons c cs)
  then show ?case by (cases c) (auto simp add: write_calls_simps)
qed

lemma foldl_upd_other:
  "p \<notin> P ` set js \<Longrightarrow> foldl (\<lambda>f i. f(P i \<mapsto> V i)) f js p = f p"
  by (induction js arbitrary: f) auto

lemma foldl_upd_hit:
  assumes "inj_on P (set js)" and "j \<in> set js"
  shows "foldl (\<lambda>f i. f(P i \<mapsto> V i)) f js (P j) = Some (V j)"
  using assms
proof (induction js arbitrary: f)
  case Nil
  then show ?case by simp
next
  case (Cons a js)
  show ?case
  proof (cases "j \<in> set js")
    case True
    moreover have "inj_on P (set js)" using Cons.prems(1) by (simp add: inj_on_def)
    ultimately show ?thesis using Cons.IH by simp
  next
    case False
    with Cons.prems have ja: "j = a" by simp
    have "P a \<notin> P ` set js"
    proof
      assume "P a \<in> P ` set js"
      then obtain b where "b \<in> set js" and "P a = P b" by auto
      with Cons.prems(1) have "a = b" by (auto simp add: inj_on_def)
      with \<open>b \<in> set js\<close> False ja show False by simp
    qed
    then have "foldl (\<lambda>f i. f(P i \<mapsto> V i)) (f(P a \<mapsto> V a)) js (P a) = (f(P a \<mapsto> V a)) (P a)"
      by (rule foldl_upd_other)
    then have "foldl (\<lambda>f i. f(P i \<mapsto> V i)) (f(P a \<mapsto> V a)) js (P a) = Some (V a)"
      by (simp only: fun_upd_same)
    then show ?thesis unfolding ja by (simp only: foldl_Cons)
  qed
qed

lemma convert_run:
  fixes out inp :: string and cd sr :: int and env :: "'a::zero env"
    and P :: "int \<Rightarrow> string" and C :: "'a::zero list \<Rightarrow> int \<Rightarrow> 'a list"
  defines "P \<equiv> \<lambda>i. str_of (clip_path (Path out) (stem (Path inp)) i)"
    and "C \<equiv> \<lambda>buf i. padded_clip buf (cd * sr) (int (length buf)) i"
  assumes run: "convert_mp3_to_wav_clips env f inp out cd sr = (res, st')"
  obtains
    (early) e where "res = Inl e" and "write_calls (calls st') = []"
      and "\<And>p r b. Load p r (Inr b) \<notin> set (calls st')"
  | (nodiv) e buf where "res = Inl e"
      and "st' = \<lparr> fs = make_dirs f (Path out),
                    calls = [Mkdir (str_of (Path out)) None, Load inp sr (Inr buf)] \<rparr>"
      and "py_true_div (int (length buf)) sr = Inl e
           \<or> py_true_div (int (length buf)) (cd * sr) = Inl e"
  | (loop) buf ratio k tail where
      "py_true_div (int (length buf)) (cd * sr) = Inr ratio"
      and "k \<le> nat \<lceil>ratio\<rceil>"
      and "\<And>q. tail = [] \<or> q \<noteq> P (int k) \<Longrightarrow>
             fs st' q = foldl (\<lambda>f i. f(P i \<mapsto> Wav (map (pcm_16 env) (C buf i)) sr))
                          (make_dirs f (Path out)) [0..int k - 1] q"
      and "calls st' = [Mkdir (str_of (Path out)) None, Load inp sr (Inr buf)]
                         @ map (\<lambda>i. Write (P i) (C buf i) sr None) [0..int k - 1] @ tail"
      and "(res = Inr (map P [0..\<lceil>ratio\<rceil> - 1]) \<and> k = nat \<lceil>ratio\<rceil> \<and> tail = [])
         \<or> (\<exists>e left. res = Inl e \<and> k < nat \<lceil>ratio\<rceil>
               \<and> tail = [Write (P (int k)) (C buf (int k)) sr (Some e)]
               \<and> sf_write_fault env
                     (foldl (\<lambda>f i. f(P i \<mapsto> Wav (map (pcm_16 env) (C buf i)) sr))
                        (make_dirs f (Path out)) [0..int k - 1])
                     (P (int k)) (C buf (int k)) sr = Some (e, left)
               \<and> fs st' = (foldl (\<lambda>f i. f(P i \<mapsto> Wav (map (pcm_16 env) (C buf i)) sr))
                             (make_dirs f (Path out)) [0..int k - 1])(P (int k) := left))
         \<or> (\<exists>e. res = Inl e \<and> 0 < k \<and> tail = []
               \<and> py_true_div (int (length (C buf (int k - 1)))) sr = Inl e)
         \<or> (\<exists>e. res = Inl e \<and> k < nat \<lceil>ratio\<rceil> \<and> tail = []
               \<and> clip_data buf (cd * sr) (int (length buf)) (int k) = Inl e)"
  using run
proof (cases rule: convert_cases)
  case (early e)
  then show ?thesis by (intro that(1) [of e]) simp_all
next
  case (nodiv e buf)
  then show ?thesis by (intro that(2) [of e buf]) simp_all
next
  case (loop buf ratio dur)
  let ?js = "[0..\<lceil>ratio\<rceil> - 1]"
  let ?st2 = "\<lparr> fs = make_dirs f (Path out),
               calls = [Mkdir (str_of (Path out)) None, Load inp sr (Inr buf)] \<rparr>"
  let ?F = "\<lambda>js. foldl (\<lambda>f i. f(P i \<mapsto> Wav (map (pcm_16 env) (C buf i)) sr)) (fs ?st2) js"
  from for_clips_run [OF loop(7)]
  obtain k where k: "k \<le> length ?js"
    and d: "(res = Inr ([] @ map P ?js) \<and> k = length ?js
              \<and> fs st' = ?F (take k ?js)
              \<and> calls st' = calls ?st2 @ map (\<lambda>i. Write (P i) (C buf i) sr None) ?js)
            \<or> (\<exists>e left. res = Inl e \<and> k < length ?js
                  \<and> sf_write_fault env (?F (take k ?js)) (P (?js ! k)) (C buf (?js ! k)) sr
                      = Some (e, left)
                  \<and> fs st' = (?F (take k ?js))(P (?js ! k) := left)
                  \<and> calls st' = calls ?st2 @ map (\<lambda>i. Write (P i) (C buf i) sr None) (take k ?js)
                                   @ [Write (P (?js ! k)) (C buf (?js ! k)) sr (Some e)])
            \<or> (\<exists>e. res = Inl e \<and> 0 < k
                  \<and> py_true_div (int (length (C buf (?js ! (k - 1))))) sr = Inl e
                  \<and> fs st' = ?F (take k ?js)
                  \<and> calls st' = calls ?st2 @ map (\<lambda>i. Write (P i) (C buf i) sr None) (take k ?js))
            \<or> (\<exists>e. res = Inl e \<and> k < length ?js
                  \<and> clip_data buf (cd * sr) (int (length buf)) (?js ! k) = Inl e
                  \<and> fs st' = ?F (take k ?js)
                  \<and> calls st' = calls ?st2 @ map (\<lambda>i. Write (P i) (C buf i) sr None) (take k ?js))"
    unfolding P_def C_def by blast
  from k have kn: "k \<le> nat \<lceil>ratio\<rceil>" by simp
  have tk: "take k ?js = [0..int k - 1]" using kn by (rule take_upto0)
  from d consider
    (ok) "res = Inr (map P ?js)" "k = nat \<lceil>ratio\<rceil>"
         "fs st' = ?F [0..int k - 1]"
         "calls st' = calls ?st2 @ map (\<lambda>i. Write (P i) (C buf i) sr None) [0..int k - 1]"
  | (fault) e left where "res = Inl e" "k < nat \<lceil>ratio\<rceil>"
         "fs st' = (?F [0..int k - 1])(P (int k) := left)"
         "sf_write_fault env (?F [0..int k - 1]) (P (int k)) (C buf (int k)) sr = Some (e, left)"
         "calls st' = calls ?st2 @ map (\<lambda>i. Write (P i) (C buf i) sr None) [0..int k - 1]
                                   @ [Write (P (int k)) (C buf (int k)) sr (Some e)]"
  | (div) e where "res = Inl e" "0 < k"
         "py_true_div (int (length (C buf (int k - 1)))) sr = Inl e"
         "fs st' = ?F [0..int k - 1]"
         "calls st' = calls ?st2 @ map (\<lambda>i. Write (P i) (C buf i) sr None) [0..int k - 1]"
  | (pad) e where "res = Inl e" "k < nat \<lceil>ratio\<rceil>"
         "clip_data buf (cd * sr) (int (length buf)) (int k) = Inl e"
         "fs st' = ?F [0..int k - 1]"
         "calls st' = calls ?st2 @ map (\<lambda>i. Write (P i) (C buf i) sr None) [0..int k - 1]"
  proof (elim disjE exE conjE)
    assume a: "res = Inr ([] @ map P ?js)" "k = length ?js"
      "fs st' = ?F (take k ?js)"
      "calls st' = calls ?st2 @ map (\<lambda>i. Write (P i) (C buf i) sr None) ?js"
    then have "take k ?js = ?js" by simp
    with tk a show ?thesis by (intro ok) simp_all
  next
    fix e left assume a: "res = Inl e" "k < length ?js"
      "fs st' = (?F (take k ?js))(P (?js ! k) := left)"
      "sf_write_fault env (?F (take k ?js)) (P (?js ! k)) (C buf (?js ! k)) sr = Some (e, left)"
      "calls st' = calls ?st2 @ map (\<lambda>i. Write (P i) (C buf i) sr None) (take k ?js)
                                   @ [Write (P (?js ! k)) (C buf (?js ! k)) sr (Some e)]"
    then have "?js ! k = int k" by (intro nth_upto0) simp
    with tk a show ?thesis by (intro fault [of e left]) simp_all
  next
    fix e assume a: "res = Inl e" "0 < k"
      "py_true_div (int (length (C buf (?js ! (k - 1))))) sr = Inl e"
      "fs st' = ?F (take k ?js)"
      "calls st' = calls ?st2 @ map (\<lambda>i. Write (P i) (C buf i) sr None) (take k ?js)"
    with kn have "?js ! (k - 1) = int (k - 1)" by (intro nth_upto0) simp
    moreover have "int (k - 1) = int k - 1" using a(2) by simp
    ultimately show ?thesis using tk a by (intro div [of e]) simp_all
  next
    fix e assume a: "res = Inl e" "k < length ?js"
      "clip_data buf (cd * sr) (int (length buf)) (?js ! k) = Inl e"
      "fs st' = ?F (take k ?js)"
      "calls st' = calls ?st2 @ map (\<lambda>i. Write (P i) (C buf i) sr None) (take k ?js)"
    then have "?js ! k = int k" by (intro nth_upto0) simp
    with tk a show ?thesis by (intro pad [of e]) simp_all
  qed
  then show ?thesis
  proof cases
    case ok
    show ?thesis
      by (rule that(3) [of buf ratio k "[]"]) (use loop kn ok in simp_all)
  next
    case (fault e left)
    show ?thesis
      by (rule that(3) [of buf ratio k "[Write (P (int k)) (C buf (int k)) sr (Some e)]"])
         (use loop kn fault in simp_all)
  next
    case (div e)
    show ?thesis
      by (rule that(3) [of buf ratio k "[]"]) (use loop kn div in simp_all)
  next
    case (pad e)
    show ?thesis
      by (rule that(3) [of buf ratio k "[]"]) (use loop kn pad in simp_all)
  qed
qed

lemma upto0_snoc: "[0..int k - 1] @ [int k] = [0..int (Suc k) - 1]"
  using upto_rec2 [of 0 "int k"] by simp

lemma convert_writes:
  fixes env :: "'a::zero env" and buf0 :: "'a list"
  assumes run: "convert_mp3_to_wav_clips env f inp out cd sr = (res, st')"
  obtains m buf where
    "write_calls (calls st')
       = map (\<lambda>i. (str_of (clip_path (Path out) (stem (Path inp)) i),
                    padded_clip buf (cd * sr) (int (length buf)) i, sr)) [0..int m - 1]"
    and "\<And>p' r' b. Load p' r' (Inr b) \<in> set (calls st') \<Longrightarrow> b = buf"
    and "\<And>created. res = Inr created \<Longrightarrow>
           created = map (\<lambda>i. str_of (clip_path (Path out) (stem (Path inp)) i)) [0..int m - 1]
           \<and> Load inp sr (Inr buf) \<in> set (calls st')
           \<and> (\<exists>ratio. py_true_div (int (length buf)) (cd * sr) = Inr ratio \<and> m = nat \<lceil>ratio\<rceil>)"
    and "0 < m \<Longrightarrow>
           Load inp sr (Inr buf) \<in> set (calls st')
           \<and> (\<exists>ratio. py_true_div (int (length buf)) (cd * sr) = Inr ratio \<and> m \<le> nat \<lceil>ratio\<rceil>)"
  using run
proof (cases rule: convert_run)
  case (early e)
  show ?thesis
    apply (rule that [where m = 0 and buf = buf0])
    subgoal using early(2) by simp
    subgoal using early(3) by blast
    subgoal using early(1) by simp
    subgoal by simp
    done
next
  case (nodiv e buf)
  have calls: "calls st' = [Mkdir (str_of (Path out)) None, Load inp sr (Inr buf)]"
    using nodiv(2) by simp
  show ?thesis
  proof (rule that [where m = 0 and buf = buf])
    show "write_calls (calls st')
       = map (\<lambda>i. (str_of (clip_path (Path out) (stem (Path inp)) i),
                    padded_clip buf (cd * sr) (int (length buf)) i, sr)) [0..int 0 - 1]"
      by (simp add: calls write_calls_simps)
    show "\<And>p' r' b. Load p' r' (Inr b) \<in> set (calls st') \<Longrightarrow> b = buf"
      by (simp add: calls)
    show "\<And>created. res = Inr created \<Longrightarrow>
           created = map (\<lambda>i. str_of (clip_path (Path out) (stem (Path inp)) i)) [0..int 0 - 1]
           \<and> Load inp sr (Inr buf) \<in> set (calls st')
           \<and> (\<exists>ratio. py_true_div (int (length buf)) (cd * sr) = Inr ratio \<and> 0 = nat \<lceil>ratio\<rceil>)"
      using nodiv(1) by simp
    show "0 < (0::nat) \<Longrightarrow>
           Load inp sr (Inr buf) \<in> set (calls st')
           \<and> (\<exists>ratio. py_true_div (int (length buf)) (cd * sr) = Inr ratio \<and> 0 \<le> nat \<lceil>ratio\<rceil>)"
      by simp
  qed
next
  case (loop buf ratio k tail)
  let ?P = "\<lambda>i. str_of (clip_path (Path out) (stem (Path inp)) i)"
  let ?C = "\<lambda>i. padded_clip buf (cd * sr) (int (length buf)) i"
  note calls = loop(4)
  have ld: "Load inp sr (Inr buf) \<in> set (calls st')" by (simp only: calls) simp
  have rt: "\<exists>ratio. py_true_div (int (length buf)) (cd * sr) = Inr ratio \<and> k \<le> nat \<lceil>ratio\<rceil>"
    using loop(1,2) by blast
  from loop(5) consider
    (ok) "res = Inr (map ?P [0..\<lceil>ratio\<rceil> - 1])" "k = nat \<lceil>ratio\<rceil>" "tail = []"
  | (fault) e where "res = Inl e" "k < nat \<lceil>ratio\<rceil>"
      "tail = [Write (?P (int k)) (?C (int k)) sr (Some e)]"
  | (div) e where "res = Inl e" "tail = []"
    by (elim disjE exE conjE) blast+
  then show ?thesis
  proof cases
    case ok
    have up: "[0..\<lceil>ratio\<rceil> - 1] = [0..int k - 1]"
      using ok(2) by (cases "0 \<le> \<lceil>ratio\<rceil>") simp_all
    show ?thesis
    proof (rule that [where m = k and buf = buf])
      show "write_calls (calls st') = map (\<lambda>i. (?P i, ?C i, sr)) [0..int k - 1]"
        by (simp only: calls ok(3) write_calls_simps write_calls_map append_Nil2 append_Nil)
      show "\<And>p' r' b. Load p' r' (Inr b) \<in> set (calls st') \<Longrightarrow> b = buf"
        by (simp only: calls ok(3)) auto
      show "\<And>created. res = Inr created \<Longrightarrow>
           created = map ?P [0..int k - 1] \<and> Load inp sr (Inr buf) \<in> set (calls st')
           \<and> (\<exists>ratio. py_true_div (int (length buf)) (cd * sr) = Inr ratio \<and> k = nat \<lceil>ratio\<rceil>)"
        using ok(1,2) up ld loop(1) by simp
      show "0 < k \<Longrightarrow> Load inp sr (Inr buf) \<in> set (calls st')
           \<and> (\<exists>ratio. py_true_div (int (length buf)) (cd * sr) = Inr ratio \<and> k \<le> nat \<lceil>ratio\<rceil>)"
        using ld rt by blast
    qed
  next
    case (fault e)
    have rt': "\<exists>ratio. py_true_div (int (length buf)) (cd * sr) = Inr ratio \<and> Suc k \<le> nat \<lceil>ratio\<rceil>"
      using loop(1) fault(2) by (intro exI [of _ ratio]) simp
    show ?thesis
    proof (rule that [where m = "Suc k" and buf = buf])
      have "write_calls (calls st') = map (\<lambda>i. (?P i, ?C i, sr)) ([0..int k - 1] @ [int k])"
        by (simp only: calls fault(3) write_calls_simps write_calls_map append_Nil2 append_Nil
              map_append list.map)
      then show "write_calls (calls st') = map (\<lambda>i. (?P i, ?C i, sr)) [0..int (Suc k) - 1]"
        by (simp only: upto0_snoc)
      show "\<And>p' r' b. Load p' r' (Inr b) \<in> set (calls st') \<Longrightarrow> b = buf"
        by (simp only: calls fault(3)) auto
      show "\<And>created. res = Inr created \<Longrightarrow>
           created = map ?P [0..int (Suc k) - 1] \<and> Load inp sr (Inr buf) \<in> set (calls st')
           \<and> (\<exists>ratio. py_true_div (int (length buf)) (cd * sr) = Inr ratio \<and> Suc k = nat \<lceil>ratio\<rceil>)"
        using fault(1) by simp
      show "0 < Suc k \<Longrightarrow> Load inp sr (Inr buf) \<in> set (calls st')
           \<and> (\<exists>ratio. py_true_div (int (length buf)) (cd * sr) = Inr ratio \<and> Suc k \<le> nat \<lceil>ratio\<rceil>)"
        using ld rt' by blast
    qed
  next
    case (div e)
    show ?thesis
    proof (rule that [where m = k and buf = buf])
      show "write_calls (calls st') = map (\<lambda>i. (?P i, ?C i, sr)) [0..int k - 1]"
        by (simp only: calls div(2) write_calls_simps write_calls_map append_Nil2 append_Nil)
      show "\<And>p' r' b. Load p' r' (Inr b) \<in> set (calls st') \<Longrightarrow> b = buf"
        by (simp only: calls div(2)) auto
      show "\<And>created. res = Inr created \<Longrightarrow>
           created = map ?P [0..int k - 1] \<and> Load inp sr (Inr buf) \<in> set (calls st')
           \<and> (\<exists>ratio. py_true_div (int (length buf)) (cd * sr) = Inr ratio \<and> k = nat \<lceil>ratio\<rceil>)"
        using div(1) by simp
      show "0 < k \<Longrightarrow> Load inp sr (Inr buf) \<in> set (calls st')
           \<and> (\<exists>ratio. py_true_div (int (length buf)) (cd * sr) = Inr ratio \<and> k \<le> nat \<lceil>ratio\<rceil>)"
        using ld rt by blast
    qed
  qed
qed

lemma clip_file_inj_on:
  "inj_on (\<lambda>i. str_of (clip_path (Path out) (stem (Path inp)) i)) {0..}"
  by (rule inj_onI) (auto intro: clip_file_inj [OF stem_no_sep])

lemma no_Write_if_no_write_calls:
  "write_calls cs = [] \<Longrightarrow> Write p d r oc \<notin> set cs"
  using Write_in_write_calls [of p d r oc cs] by auto

text \<open>
  The file of a write that returned is still there when the run ends, with the samples
  handed to that write, converted: no later write goes to the same path.
\<close>

lemma successful_write_stored:
  fixes env :: "'a::zero env"
  assumes run: "convert_mp3_to_wav_clips env f inp out cd sr = (res, st')"
    and w: "Write p d r None \<in> set (calls st')"
  shows "fs st' p = Some (Wav (map (pcm_16 env) d) r)"
  using run
proof (cases rule: convert_run)
  case (early e)
  from early(2) have "Write p d r None \<notin> set (calls st')"
    by (rule no_Write_if_no_write_calls)
  with w show ?thesis by simp
next
  case (nodiv e buf)
  with w show ?thesis by simp
next
  case (loop buf ratio k tail)
  let ?P = "\<lambda>i. str_of (clip_path (Path out) (stem (Path inp)) i)"
  let ?C = "\<lambda>i. padded_clip buf (cd * sr) (int (length buf)) i"
  let ?V = "\<lambda>i. Wav (map (pcm_16 env) (?C i)) sr"
  note calls = loop(4)
  from loop(5) have tail: "tail = [] \<or> (\<exists>e. tail = [Write (?P (int k)) (?C (int k)) sr (Some e)])"
    by (elim disjE exE conjE) simp_all
  then have "Write p d r None \<notin> set tail" by auto
  with w have "Write p d r None \<in> set (map (\<lambda>i. Write (?P i) (?C i) sr None) [0..int k - 1])"
    by (simp only: calls set_append) auto
  then obtain i where i: "i \<in> set [0..int k - 1]" and eq: "p = ?P i" "d = ?C i" "r = sr"
    by auto
  have inj: "inj_on ?P (set [0..int k - 1])"
    by (rule inj_on_subset [OF clip_file_inj_on]) auto
  have ne: "tail = [] \<or> ?P i \<noteq> ?P (int k)"
  proof -
    have "?P i \<noteq> ?P (int k)"
    proof
      assume "?P i = ?P (int k)"
      moreover from i have "0 \<le> i" by simp
      ultimately have "i = int k"
        by (intro inj_onD [OF clip_file_inj_on, of out inp]) simp_all
      with i show False by simp
    qed
    then show ?thesis by (rule disjI2)
  qed
  have "fs st' (?P i) = foldl (\<lambda>f i. f(?P i \<mapsto> ?V i)) (make_dirs f (Path out)) [0..int k - 1] (?P i)"
    by (rule loop(3) [OF ne])
  also have "\<dots> = Some (?V i)"
    using inj i by (rule foldl_upd_hit [where P = ?P and V = ?V])
  finally show ?thesis by (simp only: eq)
qed

subsection \<open>A run in the small world\<close>

lemma demo_divisions:
  obtains r1 r2 r3 where "py_true_div 5 1 = Inr r1" and "py_true_div 5 2 = Inr r2" and "\<lceil>r2\<rceil> = 3"
    and "py_true_div 2 1 = Inr r3"
proof -
  obtain r1 where 1: "py_true_div 5 1 = Inr r1"
    using py_true_div_ceiling [of 5 1] by auto
  obtain r2 where 2: "py_true_div 5 2 = Inr r2" "\<lceil>r2\<rceil> = \<lceil>(of_int 5 :: rat) / of_int 2\<rceil>"
    using py_true_div_ceiling [of 5 2] by auto
  obtain r3 where 3: "py_true_div 2 1 = Inr r3"
    using py_true_div_ceiling [of 2 1] by auto
  have "\<lceil>(of_int 5 :: rat) / of_int 2\<rceil> = 3" by (simp add: ceiling_eq_iff)
  with 1 2 3 show ?thesis by (intro that) simp_all
qed

lemma format_03d_examples:
  "format_03d 1 = ''001''" "format_03d 2 = ''002''" "format_03d 3 = ''003''"
  by code_simp+

lemmas run_defs = format_03d_examples
  convert_mp3_to_wav_clips_def Let_def exists_def demo_fs_def Path_def str_of_def
  suffix_def name_def lower_def lower_char_def demo_env_def failing_env_def mkdir_def load_def
  stem_def sf_write_def clip_data_def raw_clip_def py_slice_def np_pad_def clip_path_def
  clip_filename_def truediv_def upto_rec1

lemma demo_run:
  "fst (convert_mp3_to_wav_clips (demo_env [1, 2, 3, 4, 5]) demo_fs ''track.mp3'' ''out'' 2 1)
     = Inr [''out/track_clip_001.wav'', ''out/track_clip_002.wav'', ''out/track_clip_003.wav'']"
  "calls (snd (convert_mp3_to_wav_clips (demo_env [1, 2, 3, 4, 5]) demo_fs ''track.mp3'' ''out'' 2 1))
     = [Mkdir ''out'' None, Load ''track.mp3'' 1 (Inr [1, 2, 3, 4, 5]),
        Write ''out/track_clip_001.wav'' [1, 2] 1 None,
        Write ''out/track_clip_002.wav'' [3, 4] 1 None,
        Write ''out/track_clip_003.wav'' [5, 0] 1 None]"
proof -
  obtain r1 r2 r3 where d: "py_true_div 5 1 = Inr r1" "py_true_div 5 2 = Inr r2" "\<lceil>r2\<rceil> = 3"
    "py_true_div 2 1 = Inr r3" by (rule demo_divisions)
  show "fst (convert_mp3_to_wav_clips (demo_env [1, 2, 3, 4, 5]) demo_fs ''track.mp3'' ''out'' 2 1)
     = Inr [''out/track_clip_001.wav'', ''out/track_clip_002.wav'', ''out/track_clip_003.wav'']"
    using d by (simp add: run_defs)
  show "calls (snd (convert_mp3_to_wav_clips (demo_env [1, 2, 3, 4, 5]) demo_fs ''track.mp3'' ''out'' 2 1))
     = [Mkdir ''out'' None, Load ''track.mp3'' 1 (Inr [1, 2, 3, 4, 5]),
        Write ''out/track_clip_001.wav'' [1, 2] 1 None,
        Write ''out/track_clip_002.wav'' [3, 4] 1 None,
        Write ''out/track_clip_003.wav'' [5, 0] 1 None]"
    using d by (simp add: run_defs)
qed

lemma py_true_div_zero: "b \<noteq> 0 \<Longrightarrow> py_true_div 0 b = Inr 0"
  by (simp add: py_true_div_def round_binary64_def)

lemma str_of_in_with_parents: "str_of p \<in> set (with_parents (p :: pure_path))"
proof -
  have eq: "\<lparr> root = root p, names = take (length (names p)) (names p) \<rparr> = p"
    by (cases p) simp
  have "length (names p) \<in> set [0..<Suc (length (names p))]" by simp
  then have "str_of \<lparr> root = root p, names = take (length (names p)) (names p) \<rparr>
               \<in> (\<lambda>k. str_of \<lparr> root = root p, names = take k (names p) \<rparr>) ` set [0..<Suc (length (names p))]"
    by (rule imageI)
  then show ?thesis by (simp only: eq with_parents_def set_map)
qed

lemma make_dirs_exists: "make_dirs f p (str_of p) \<noteq> None"
  using str_of_in_with_parents [of p] by (simp add: make_dirs_def)

lemma list_all_is_digit: "0 \<le> n \<Longrightarrow> list_all is_digit (format_03d n)"
  by (simp add: list_all_iff format_03d_all_digits)

lemma failing_run:
  "fst (convert_mp3_to_wav_clips (failing_env [1, 2, 3, 4, 5] ''out/track_clip_002.wav'')
          demo_fs ''track.mp3'' ''out'' 2 1)
     = Inl (LibraryError ''disk full'')"
  "calls (snd (convert_mp3_to_wav_clips (failing_env [1, 2, 3, 4, 5] ''out/track_clip_002.wav'')
          demo_fs ''track.mp3'' ''out'' 2 1))
     = [Mkdir ''out'' None, Load ''track.mp3'' 1 (Inr [1, 2, 3, 4, 5]),
        Write ''out/track_clip_001.wav'' [1, 2] 1 None,
        Write ''out/track_clip_002.wav'' [3, 4] 1 (Some (LibraryError ''disk full''))]"
proof -
  obtain r1 r2 r3 where d: "py_true_div 5 1 = Inr r1" "py_true_div 5 2 = Inr r2" "\<lceil>r2\<rceil> = 3"
    "py_true_div 2 1 = Inr r3" by (rule demo_divisions)
  show "fst (convert_mp3_to_wav_clips (failing_env [1, 2, 3, 4, 5] ''out/track_clip_002.wav'')
          demo_fs ''track.mp3'' ''out'' 2 1)
     = Inl (LibraryError ''disk full'')"
    using d by (simp add: run_defs)
  show "calls (snd (convert_mp3_to_wav_clips (failing_env [1, 2, 3, 4, 5] ''out/track_clip_002.wav'')
          demo_fs ''track.mp3'' ''out'' 2 1))
     = [Mkdir ''out'' None, Load ''track.mp3'' 1 (Inr [1, 2, 3, 4, 5]),
        Write ''out/track_clip_001.wav'' [1, 2] 1 None,
        Write ''out/track_clip_002.wav'' [3, 4] 1 (Some (LibraryError ''disk full''))]"
    using d by (simp add: run_defs)
qed

lemma lower_MP3: "lower ''.MP3'' = ''.mp3''"
  by code_simp

lemma other_run:
  "fst (convert_mp3_to_wav_clips (failing_env [1, 2, 3, 4, 5] ''nowhere'') other_fs ''in/song.MP3'' ''a/b/'' 2 1)
     = Inr [''a/b/song_clip_001.wav'', ''a/b/song_clip_002.wav'', ''a/b/song_clip_003.wav'']"
  "calls (snd (convert_mp3_to_wav_clips (failing_env [1, 2, 3, 4, 5] ''nowhere'') other_fs ''in/song.MP3'' ''a/b/'' 2 1))
     = [Mkdir ''a/b'' None, Load ''in/song.MP3'' 1 (Inr [1, 2, 3, 4, 5]),
        Write ''a/b/song_clip_001.wav'' [1, 2] 1 None,
        Write ''a/b/song_clip_002.wav'' [3, 4] 1 None,
        Write ''a/b/song_clip_003.wav'' [5, 0] 1 None]"
proof -
  obtain r1 r2 r3 where d: "py_true_div 5 1 = Inr r1" "py_true_div 5 2 = Inr r2" "\<lceil>r2\<rceil> = 3"
    "py_true_div 2 1 = Inr r3" by (rule demo_divisions)
  have sfx: "lower (suffix (Path ''in/song.MP3'')) = ''.mp3''"
    using lower_MP3 by (simp add: suffix_def name_def Path_def Let_def)
  show "fst (convert_mp3_to_wav_clips (failing_env [1, 2, 3, 4, 5] ''nowhere'') other_fs ''in/song.MP3'' ''a/b/'' 2 1)
     = Inr [''a/b/song_clip_001.wav'', ''a/b/song_clip_002.wav'', ''a/b/song_clip_003.wav'']"
    using d sfx by (simp add: other_fs_def convert_mp3_to_wav_clips_def Let_def exists_def Path_def
      str_of_def name_def failing_env_def mkdir_def load_def stem_def sf_write_def clip_data_def
      raw_clip_def py_slice_def np_pad_def clip_path_def clip_filename_def truediv_def upto_rec1
      format_03d_examples)
  show "calls (snd (convert_mp3_to_wav_clips (failing_env [1, 2, 3, 4, 5] ''nowhere'') other_fs ''in/song.MP3'' ''a/b/'' 2 1))
     = [Mkdir ''a/b'' None, Load ''in/song.MP3'' 1 (Inr [1, 2, 3, 4, 5]),
        Write ''a/b/song_clip_001.wav'' [1, 2] 1 None,
        Write ''a/b/song_clip_002.wav'' [3, 4] 1 None,
        Write ''a/b/song_clip_003.wav'' [5, 0] 1 None]"
    using d sfx by (simp add: other_fs_def convert_mp3_to_wav_clips_def Let_def exists_def Path_def
      str_of_def name_def failing_env_def mkdir_def load_def stem_def sf_write_def clip_data_def
      raw_clip_def py_slice_def np_pad_def clip_path_def clip_filename_def truediv_def upto_rec1
      format_03d_examples)
qed

lemma ceiling_quotient_bounds:
  fixes a s :: int
  assumes "0 < s"
  shows "(\<lceil>(of_int a :: rat) / of_int s\<rceil> - 1) * s < a"
    and "a \<le> \<lceil>(of_int a :: rat) / of_int s\<rceil> * s"
proof -
  let ?n = "\<lceil>(of_int a :: rat) / of_int s\<rceil>"
  have spos: "(0::rat) < of_int s" using assms by simp
  have "of_int ?n - 1 < (of_int a :: rat) / of_int s" by linarith
  then have "(of_int ?n - 1) * of_int s < (of_int a :: rat)"
    using spos by (simp add: pos_less_divide_eq)
  then have "(of_int ((?n - 1) * s) :: rat) < of_int a" by simp
  then show "(?n - 1) * s < a" by (simp only: of_int_less_iff)
  have "(of_int a :: rat) / of_int s \<le> of_int ?n" by linarith
  then have "(of_int a :: rat) \<le> of_int ?n * of_int s"
    by (simp only: pos_divide_le_eq [OF spos])
  then have "(of_int a :: rat) \<le> of_int (?n * s)" by simp
  then show "a \<le> ?n * s" by (simp only: of_int_le_iff)
qed

lemma int_min_window:
  "0 \<le> t \<Longrightarrow> t \<le> int n \<Longrightarrow> 0 < s \<Longrightarrow> int (min (nat s) (n - nat t)) = min s (int n - t)"
  by linarith

lemma length_raw_clip:
  assumes "0 < s" and "0 \<le> i" and "i * s \<le> int (length buf)"
  shows "int (length (raw_clip buf s (int (length buf)) i)) = min s (int (length buf) - i * s)"
proof -
  have t: "0 \<le> i * s" using assms by simp
  have "length (raw_clip buf s (int (length buf)) i) = min (nat s) (length buf - nat (i * s))"
    using assms by (simp add: raw_clip_take_drop)
  then show ?thesis using int_min_window [OF t assms(3) assms(1)] by simp
qed

lemma ceiling_quotient_nonneg:
  fixes a s :: int
  assumes "0 \<le> a" and "0 < s"
  shows "0 \<le> \<lceil>(of_int a :: rat) / of_int s\<rceil>"
proof -
  have "(0::rat) \<le> of_int a / of_int s" using assms by simp
  then show ?thesis by linarith
qed

lemma ceiling_quotient_pos:
  fixes a s :: int
  assumes "0 < a" and "0 < s"
  shows "1 \<le> \<lceil>(of_int a :: rat) / of_int s\<rceil>"
proof -
  have "(0::rat) < of_int a / of_int s" using assms by simp
  then show ?thesis by linarith
qed

lemma py_true_div_underflow:
  assumes "0 < a" and "0 < s" and "a * 2 ^ 1075 \<le> s"
  shows "py_true_div a s = Inr 0"
proof -
  have "round_binary64 a s = 0" using assms by (rule round_binary64_underflow)
  then show ?thesis using assms(2) by (simp add: py_true_div_def)
qed

lemma chunks_concat:
  "concat (map (\<lambda>j. take S (drop (j * S) xs)) [0..<m]) = take (m * S) xs"
proof (induction m)
  case 0
  then show ?case by simp
next
  case (Suc m)
  have "take (m * S + S) xs = take (m * S) xs @ take S (drop (m * S) xs)"
    by (rule take_add)
  then show ?case using Suc by (simp add: add.commute)
qed

lemma padded_clip_padded_window:
  fixes buf :: "'a::zero list"
  assumes S: "0 < S" and j: "j < m" and cover: "length buf \<le> m * S"
  shows "padded_clip buf (int S) (int (length buf)) (int j)
           = take S (drop (j * S) (buf @ replicate (m * S - length buf) 0))"
proof -
  have step: "j * S + S \<le> m * S"
  proof -
    have "Suc j * S \<le> m * S" using j by (intro mult_le_mono1) simp
    then show ?thesis by (simp add: add.commute)
  qed
  have raw: "raw_clip buf (int S) (int (length buf)) (int j) = take S (drop (j * S) buf)"
    using S by (simp add: raw_clip_take_drop nat_mult_distrib)
  have "padded_clip buf (int S) (int (length buf)) (int j)
      = take S (drop (j * S) buf) @ replicate (S - length (take S (drop (j * S) buf))) 0"
    using S by (simp add: padded_clip_eq raw)
  also have "\<dots> = take S (drop (j * S) (buf @ replicate (m * S - length buf) 0))"
  proof (cases "j * S \<le> length buf")
    case True
    then show ?thesis using step cover by (auto simp add: min_def)
  next
    case False
    then show ?thesis using step cover by (auto simp add: min_def)
  qed
  finally show ?thesis .
qed

lemma underflow_run:
  "fst (convert_mp3_to_wav_clips (demo_env [7]) demo_fs ''track.mp3'' ''out'' (2 ^ 1075) 1) = Inr []"
  "calls (snd (convert_mp3_to_wav_clips (demo_env [7]) demo_fs ''track.mp3'' ''out'' (2 ^ 1075) 1))
     = [Mkdir ''out'' None, Load ''track.mp3'' 1 (Inr [7])]"
proof -
  obtain r1 where d1: "py_true_div 1 1 = Inr r1"
    using py_true_div_ceiling [of 1 1] by auto
  have d2: "py_true_div 1 (2 ^ 1075) = Inr 0"
    by (rule py_true_div_underflow) simp_all
  show "fst (convert_mp3_to_wav_clips (demo_env [7]) demo_fs ''track.mp3'' ''out'' (2 ^ 1075) 1)
               = Inr []"
    using d1 d2 by (simp add: run_defs)
  show "calls (snd (convert_mp3_to_wav_clips (demo_env [7]) demo_fs ''track.mp3'' ''out'' (2 ^ 1075) 1))
               = [Mkdir ''out'' None, Load ''track.mp3'' 1 (Inr [7])]"
    using d1 d2 by (simp add: run_defs)
qed

subsection \<open>A quotient that rounds up\<close>

text \<open>
  The quotient \<open>(2\<^sup>5\<^sup>5 + 6) / 1\<close> is not a binary64 number: it lies between \<open>2\<^sup>5\<^sup>5\<close> and
  \<open>2\<^sup>5\<^sup>5 + 8\<close>, nearer to the second, and true division returns \<open>2\<^sup>5\<^sup>5 + 8\<close>. This is
  why the results on the number of clips speak of buffers of fewer than \<open>2\<^sup>5\<^sup>3\<close> samples,
  which is every buffer that fits into the memory of a machine.
\<close>

lemma power_int_two_less_imp_less:
  assumes "(2::rat) powi m < 2 powi n"
  shows "m < n"
proof (rule ccontr)
  assume "\<not> m < n"
  then have "n \<le> m" by simp
  then have "(2::rat) powi n \<le> 2 powi m"
    by (rule power_int_increasing) simp
  with assms show False by simp
qed

lemma ilog2_quot_unique:
  assumes a: "0 < a" and b: "0 < b"
    and lo: "(2::rat) powi E \<le> of_int a / of_int b"
    and hi: "of_int a / of_int b < (2::rat) powi (E + 1)"
  shows "ilog2_quot a b = E"
proof -
  note bnd = ilog2_quot_bounds [OF a b]
  have "(2::rat) powi (ilog2_quot a b) < 2 powi (E + 1)" using bnd(1) hi by simp
  then have "ilog2_quot a b < E + 1" by (rule power_int_two_less_imp_less)
  moreover have "(2::rat) powi E < 2 powi (ilog2_quot a b + 1)" using lo bnd(2) by simp
  then have "E < ilog2_quot a b + 1" by (rule power_int_two_less_imp_less)
  ultimately show ?thesis by simp
qed

lemma py_true_div_rounds_up: "py_true_div (2 ^ 55 + 6) 1 = Inr (2 ^ 55 + 8)"
proof -
  have E: "ilog2_quot (2 ^ 55 + 6) 1 = 55"
    by (rule ilog2_quot_unique) simp_all
  have fl: "\<lfloor>((2 ^ 55 + 6) / 2 ^ 3 :: rat)\<rfloor> = 2 ^ 52"
    by (rule floor_unique) simp_all
  have m: "round_half_even ((2 ^ 55 + 6) / 2 ^ 3) = 2 ^ 52 + 1"
    unfolding round_half_even_def Let_def fl by simp
  have "round_binary64 (2 ^ 55 + 6) 1 = 2 ^ 55 + 8"
    using m E by (simp add: round_binary64_def Let_def)
  then show ?thesis by (simp add: py_true_div_def Let_def)
qed


lemma demo_input_valid:
  "exists (demo_env buf) demo_fs (Path ''track.mp3'') = Inr True"
  "lower (suffix (Path ''track.mp3'')) = ''.mp3''"
  "str_of (Path ''out'') = ''out''"
  by (simp_all add: run_defs)

lemma demo_paths:
  "str_of (clip_path (Path ''out'') (stem (Path ''track.mp3'')) 0) = ''out/track_clip_001.wav''"
  "str_of (clip_path (Path ''out'') (stem (Path ''track.mp3'')) 2) = ''out/track_clip_003.wav''"
  by (simp_all add: run_defs)

lemma demo_clip:
  "padded_clip [1, 2, 3, 4, 5 :: int] 2 5 0 = [1, 2]"
  by (simp add: padded_clip_def raw_clip_def py_slice_def Let_def)

lemma demo_untouched: "make_dirs demo_fs (Path ''out'') ''out/track_clip_003.wav'' = None"
  by (simp add: make_dirs_def with_parents_def demo_fs_def Path_def str_of_def Let_def)

subsection \<open>A name that is too long\<close>

lemma long_name_split:
  "split_sep (replicate 300 (CHR ''a'') @ ''.mp3'') = [replicate 300 (CHR ''a'') @ ''.mp3'']"
  by (rule split_sep_single) simp

lemma long_name_path:
  "str_of (Path (replicate 300 (CHR ''a'') @ ''.mp3'')) = replicate 300 (CHR ''a'') @ ''.mp3''"
proof -
  have "Path (replicate 300 (CHR ''a'') @ ''.mp3'')
          = \<lparr> root = '''', names = [replicate 300 (CHR ''a'') @ ''.mp3''] \<rparr>"
    by (rule Path_single) (simp_all add: append_eq_Cons_conv)
  then show ?thesis by (simp add: str_of_def)
qed

lemma long_name_missing: "demo_fs (replicate 300 (CHR ''a'') @ ''.mp3'') = None"
proof -
  have "length (replicate 300 (CHR ''a'') @ ''.mp3'') = 304" by simp
  moreover have "length ''track.mp3'' = 9" and "length ''notes.txt'' = 9" by simp_all
  ultimately have "replicate 300 (CHR ''a'') @ ''.mp3'' \<noteq> ''track.mp3''"
    and "replicate 300 (CHR ''a'') @ ''.mp3'' \<noteq> ''notes.txt''"
    by (metis numeral_eq_iff semiring_norm(89) num.distinct)+
  then show ?thesis by (simp add: demo_fs_def)
qed

section \<open>The claims\<close>

subsection \<open>Validation of the input path\<close>

text \<open>
  Claim C7, as amended. When \<^verbatim>\<open>Path.exists\<close> returns False for the input path,
  the function raises FileNotFoundError at once: the result is that error, the
  filesystem is the one it was given, and the call history is empty, so no directory
  was created, nothing was decoded and nothing was written.
\<close>

theorem missing_input_fails_first:
  assumes "exists env f (Path input_file) = Inr False"
  shows "convert_mp3_to_wav_clips env f input_file output_dir clip_duration sample_rate
           = (Inl FileNotFoundError, \<lparr> fs = f, calls = [] \<rparr>)"
  using assms by (simp add: convert_mp3_to_wav_clips_def Let_def)

theorem missing_input_fails_first_witness:
  "exists (demo_env [1, 2, 3]) demo_fs (Path ''nothing.mp3'') = Inr False
   \<and> convert_mp3_to_wav_clips (demo_env [1, 2, 3]) demo_fs ''nothing.mp3'' ''out'' 10 16000
       = (Inl FileNotFoundError, \<lparr> fs = demo_fs, calls = [] \<rparr>)"
proof -
  have h: "exists (demo_env [1, 2, 3]) demo_fs (Path ''nothing.mp3'') = Inr False"
    by (simp add: exists_def demo_env_def demo_fs_def Path_def str_of_def Let_def)
  show ?thesis
    using h missing_input_fails_first [OF h, of "''out''" 10 16000] by simp
qed

text \<open>
  Claim C7 as stated, for every input path that does not exist, fails. The name
  \<^verbatim>\<open>aaa...a.mp3\<close> with 300 letters is not in the filesystem, and on Linux
  \<^verbatim>\<open>os.stat\<close> fails for it with \<^verbatim>\<open>ENAMETOOLONG\<close>, an error that
  \<^verbatim>\<open>Path.exists\<close> does not catch: the function ends with that OSError and not with
  FileNotFoundError. It still ends before any directory is created or anything decoded.
\<close>

theorem missing_input_counterexample:
  "demo_fs (str_of (Path (replicate 300 (CHR ''a'') @ ''.mp3''))) = None
   \<and> convert_mp3_to_wav_clips (linux_env [1, 2, 3]) demo_fs
         (replicate 300 (CHR ''a'') @ ''.mp3'') ''out'' 10 16000
       = (Inl (OSError ''File name too long''), \<lparr> fs = demo_fs, calls = [] \<rparr>)
   \<and> OSError ''File name too long'' \<noteq> FileNotFoundError"
proof -
  have p: "str_of (Path (replicate 300 (CHR ''a'') @ ''.mp3'')) = replicate 300 (CHR ''a'') @ ''.mp3''"
    by (rule long_name_path)
  have "name_too_long (replicate 300 (CHR ''a'') @ ''.mp3'')"
    by (simp add: name_too_long_def long_name_split)
  then have "exists (linux_env [1, 2, 3]) demo_fs (Path (replicate 300 (CHR ''a'') @ ''.mp3''))
               = Inl (OSError ''File name too long'')"
    by (simp add: exists_def linux_env_def p)
  moreover have "demo_fs (replicate 300 (CHR ''a'') @ ''.mp3'') = None"
    by (rule long_name_missing)
  ultimately show ?thesis
    by (simp add: p convert_mp3_to_wav_clips_def Let_def)
qed

text \<open>
  Claim C10. When the input path exists and its suffix, lowered, is not \<^verbatim>\<open>.mp3\<close>,
  the function raises ValueError at once: the filesystem is unchanged and the call
  history is empty, so no directory was created and nothing was decoded.
\<close>

theorem wrong_extension_fails_first:
  assumes "exists env f (Path input_file) = Inr True"
    and "lower (suffix (Path input_file)) \<noteq> ''.mp3''"
  shows "convert_mp3_to_wav_clips env f input_file output_dir clip_duration sample_rate
           = (Inl ValueError, \<lparr> fs = f, calls = [] \<rparr>)"
  using assms by (simp add: convert_mp3_to_wav_clips_def Let_def)

theorem wrong_extension_fails_first_witness:
  "exists (demo_env [1, 2, 3]) demo_fs (Path ''notes.txt'') = Inr True
   \<and> lower (suffix (Path ''notes.txt'')) \<noteq> ''.mp3''
   \<and> convert_mp3_to_wav_clips (demo_env [1, 2, 3]) demo_fs ''notes.txt'' ''out'' 10 16000
       = (Inl ValueError, \<lparr> fs = demo_fs, calls = [] \<rparr>)"
proof -
  have h1: "exists (demo_env [1, 2, 3]) demo_fs (Path ''notes.txt'') = Inr True"
    by (simp add: exists_def demo_env_def demo_fs_def Path_def str_of_def Let_def)
  have h2: "lower (suffix (Path ''notes.txt'')) \<noteq> ''.mp3''"
    by (simp add: suffix_def name_def Path_def lower_def lower_char_def Let_def)
  show ?thesis
    using h1 h2 wrong_extension_fails_first [OF h1 h2, of "''out''" 10 16000]
    by simp
qed

subsection \<open>The clips\<close>

text \<open>
  Claim C1, as amended. The number of clips is computed in binary64 arithmetic
  (\<^verbatim>\<open>int(np.ceil(total_samples / samples_per_clip))\<close>), so it is the ceiling of the
  exact quotient only while the float can tell the quotient from the integer below it.
  For a buffer of fewer than \<open>2\<^sup>5\<^sup>3\<close> samples and a positive number of samples per clip
  below \<open>2\<^sup>1\<^sup>0\<^sup>7\<^sup>5\<close>, a run that returns has written exactly
  \<open>\<lceil>L / samples_per_clip\<rceil>\<close> clips and returns as many paths; and when the buffer is
  not empty, the slice of the last clip has \<open>L - (count - 1) * samples_per_clip\<close>
  samples.
\<close>

theorem clip_count_is_ceiling:
  fixes env :: "'a::zero env"
  assumes run: "convert_mp3_to_wav_clips env f input_file output_dir clip_duration sample_rate
                  = (Inr created, st')"
    and dec: "Load input_file sample_rate (Inr buf) \<in> set (calls st')"
    and pos: "0 < clip_duration * sample_rate"
    and small: "int (length buf) < 2 ^ 53" "clip_duration * sample_rate < 2 ^ 1075"
  shows "int (length (write_calls (calls st')))
           = \<lceil>(of_nat (length buf) :: rat) / of_int (clip_duration * sample_rate)\<rceil>
       \<and> int (length created)
           = \<lceil>(of_nat (length buf) :: rat) / of_int (clip_duration * sample_rate)\<rceil>
       \<and> (0 < length buf \<longrightarrow>
            int (length (raw_clip buf (clip_duration * sample_rate) (int (length buf))
                   (\<lceil>(of_nat (length buf) :: rat) / of_int (clip_duration * sample_rate)\<rceil> - 1)))
              = int (length buf)
                - (\<lceil>(of_nat (length buf) :: rat) / of_int (clip_duration * sample_rate)\<rceil> - 1)
                  * (clip_duration * sample_rate))"
proof -
  let ?s = "clip_duration * sample_rate"
  let ?L = "int (length buf)"
  let ?n = "\<lceil>(of_int ?L :: rat) / of_int ?s\<rceil>"
  from run obtain m and b :: "'a list" where
    w: "write_calls (calls st')
       = map (\<lambda>i. (str_of (clip_path (Path output_dir) (stem (Path input_file)) i),
                    padded_clip b ?s (int (length b)) i, sample_rate)) [0..int m - 1]"
    and l: "\<And>p' r' b'. Load p' r' (Inr b') \<in> set (calls st') \<Longrightarrow> b' = b"
    and c: "\<And>cr. Inr created = Inr cr \<Longrightarrow>
           cr = map (\<lambda>i. str_of (clip_path (Path output_dir) (stem (Path input_file)) i)) [0..int m - 1]
           \<and> Load input_file sample_rate (Inr b) \<in> set (calls st')
           \<and> (\<exists>ratio. py_true_div (int (length b)) ?s = Inr ratio \<and> m = nat \<lceil>ratio\<rceil>)"
    by (rule convert_writes) blast
  have b: "b = buf" using l [OF dec] by simp
  from c [OF refl] obtain ratio where cr: "created = map (\<lambda>i. str_of (clip_path (Path output_dir) (stem (Path input_file)) i)) [0..int m - 1]"
    and ratio: "py_true_div ?L ?s = Inr ratio" "m = nat \<lceil>ratio\<rceil>"
    unfolding b by blast
  from py_true_div_ceiling [OF _ pos small] obtain r where
    "py_true_div ?L ?s = Inr r" "\<lceil>r\<rceil> = ?n"
    by auto
  with ratio have m: "m = nat ?n" by simp
  have n0: "0 \<le> ?n" using pos by (intro ceiling_quotient_nonneg) simp_all
  have count: "int m = ?n" using m n0 by simp
  have lw: "length (write_calls (calls st')) = m" by (simp add: w)
  have lc: "length created = m" by (simp add: cr)
  have tail: "0 < length buf \<longrightarrow>
      int (length (raw_clip buf ?s ?L (?n - 1))) = ?L - (?n - 1) * ?s"
  proof
    assume "0 < length buf"
    then have n1: "1 \<le> ?n" using pos by (intro ceiling_quotient_pos) simp_all
    note bounds = ceiling_quotient_bounds [OF pos, of ?L]
    have "int (length (raw_clip buf ?s ?L (?n - 1))) = min ?s (?L - (?n - 1) * ?s)"
      using pos n1 bounds(1) by (intro length_raw_clip) simp_all
    also have "\<dots> = ?L - (?n - 1) * ?s"
      using bounds(2) by (simp add: algebra_simps)
    finally show "int (length (raw_clip buf ?s ?L (?n - 1))) = ?L - (?n - 1) * ?s" .
  qed
  show ?thesis using count lw lc tail by simp
qed


theorem clip_count_is_ceiling_witness:
  "Load ''track.mp3'' 1 (Inr [1, 2, 3, 4, 5])
     \<in> set (calls (snd (convert_mp3_to_wav_clips (demo_env [1, 2, 3, 4, 5]) demo_fs
                          ''track.mp3'' ''out'' 2 1)))
   \<and> (0::int) < 2 * 1 \<and> int (length [1, 2, 3, 4, 5 :: int]) < 2 ^ 53 \<and> (2::int) * 1 < 2 ^ 1075
   \<and> int (length (write_calls (calls (snd (convert_mp3_to_wav_clips (demo_env [1, 2, 3, 4, 5])
              demo_fs ''track.mp3'' ''out'' 2 1)))))
       = \<lceil>(of_nat (length [1, 2, 3, 4, 5 :: int]) :: rat) / of_int (2 * 1)\<rceil>
   \<and> int (length (raw_clip [1, 2, 3, 4, 5 :: int] (2 * 1) (int (length [1, 2, 3, 4, 5 :: int]))
              (\<lceil>(of_nat (length [1, 2, 3, 4, 5 :: int]) :: rat) / of_int (2 * 1)\<rceil> - 1)))
       = int (length [1, 2, 3, 4, 5 :: int])
         - (\<lceil>(of_nat (length [1, 2, 3, 4, 5 :: int]) :: rat) / of_int (2 * 1)\<rceil> - 1) * (2 * 1)"
proof -
  let ?run = "convert_mp3_to_wav_clips (demo_env [1, 2, 3, 4, 5]) demo_fs ''track.mp3'' ''out'' 2 1"
  have run: "?run = (Inr [''out/track_clip_001.wav'', ''out/track_clip_002.wav'',
                          ''out/track_clip_003.wav''], snd ?run)"
    using demo_run(1) by (simp add: prod_eq_iff)
  have dec: "Load ''track.mp3'' 1 (Inr [1, 2, 3, 4, 5]) \<in> set (calls (snd ?run))"
    by (simp add: demo_run)
  have pos: "(0::int) < 2 * 1" by simp
  have s1: "int (length [1, 2, 3, 4, 5 :: int]) < 2 ^ 53" by simp
  have s2: "(2::int) * 1 < 2 ^ 1075" by simp
  have len: "0 < length [1, 2, 3, 4, 5 :: int]" by simp
  from clip_count_is_ceiling [OF run dec pos s1 s2] len dec pos s1 s2
  show ?thesis by blast
qed

text \<open>
  Claim C1 as stated, for every positive number of samples per clip, fails: with a
  buffer of one sample, a clip duration of \<open>2\<^sup>1\<^sup>0\<^sup>7\<^sup>5\<close> and a sample rate of 1, the
  quotient underflows to the float 0, the function writes no clip and returns the empty
  list, while \<open>\<lceil>1 / 2\<^sup>1\<^sup>0\<^sup>7\<^sup>5\<rceil> = 1\<close>.
\<close>

theorem clip_count_counterexample:
  "fst (convert_mp3_to_wav_clips (demo_env [7]) demo_fs ''track.mp3'' ''out'' (2 ^ 1075) 1) = Inr []
   \<and> (0::int) < 2 ^ 1075 * 1
   \<and> int (length (write_calls (calls (snd
         (convert_mp3_to_wav_clips (demo_env [7]) demo_fs ''track.mp3'' ''out'' (2 ^ 1075) 1))))) = 0
   \<and> \<lceil>(of_nat (length [7 :: int]) :: rat) / of_int (2 ^ 1075 * 1)\<rceil> = 1"
proof -
  have "(0::rat) < 1 / 2 ^ 1075" and "(1::rat) / 2 ^ 1075 \<le> 1" by simp_all
  then have "\<lceil>(1::rat) / 2 ^ 1075\<rceil> = 1" by linarith
  then have c: "\<lceil>(of_nat (length [7 :: int]) :: rat) / of_int (2 ^ 1075 * 1)\<rceil> = 1" by simp
  show ?thesis using underflow_run c by (simp add: write_calls_simps)
qed

text \<open>
  Claim C2. Whenever the number of samples per clip is positive, every clip handed to
  \<^verbatim>\<open>sf.write\<close> has exactly that many samples, the last one included, however the
  run ends.
\<close>

theorem every_clip_has_sample_count:
  fixes env :: "'a::zero env"
  assumes run: "convert_mp3_to_wav_clips env f input_file output_dir clip_duration sample_rate
                  = (res, st')"
    and pos: "0 < clip_duration * sample_rate"
    and w: "(p, d, r) \<in> set (write_calls (calls st'))"
  shows "int (length d) = clip_duration * sample_rate"
proof -
  from run obtain m and buf :: "'a list" where
    "write_calls (calls st')
       = map (\<lambda>i. (str_of (clip_path (Path output_dir) (stem (Path input_file)) i),
                    padded_clip buf (clip_duration * sample_rate) (int (length buf)) i, sample_rate))
           [0..int m - 1]"
    by (rule convert_writes)
  with w obtain i where "0 \<le> i"
    and "d = padded_clip buf (clip_duration * sample_rate) (int (length buf)) i"
    by auto
  then show ?thesis using pos by (simp add: length_padded_clip)
qed

theorem every_clip_has_sample_count_witness:
  "(0::int) < 2 * 1
   \<and> (''out/track_clip_003.wav'', [5, 0], 1) \<in> set (write_calls (calls (snd
         (convert_mp3_to_wav_clips (demo_env [1, 2, 3, 4, 5]) demo_fs ''track.mp3'' ''out'' 2 1))))
   \<and> int (length [5, 0 :: int]) = 2 * 1"
proof -
  let ?run = "convert_mp3_to_wav_clips (demo_env [1, 2, 3, 4, 5]) demo_fs ''track.mp3'' ''out'' 2 1"
  have run: "?run = (fst ?run, snd ?run)" by simp
  have pos: "(0::int) < 2 * 1" by simp
  have w: "(''out/track_clip_003.wav'', [5, 0], 1) \<in> set (write_calls (calls (snd ?run)))"
    by (simp add: demo_run write_calls_simps)
  show ?thesis
    using pos w every_clip_has_sample_count [OF run pos w] by simp
qed

text \<open>
  Claim C3. In every run, whatever its outcome, write number \<open>k\<close> carries the raw slice
  of clip \<open>k\<close>, which is the window of \<open>sampleCount\<close> samples of the decoded buffer that
  starts at \<open>k * sampleCount\<close>, unchanged, followed by \<open>sampleCount - rawLength\<close> samples
  that are all zero: nothing else is done to the samples. A raw slice is short only
  when the clip reaches past the end of the buffer, and then the clip is the final
  one, clip number \<open>\<lceil>L / sampleCount\<rceil>\<close>, for every buffer of fewer than \<open>2\<^sup>5\<^sup>3\<close> samples,
  that is for every buffer that a machine can hold.
\<close>

theorem padding_is_zeros_only:
  fixes env :: "'a::zero env"
  assumes run: "convert_mp3_to_wav_clips env f input_file output_dir clip_duration sample_rate
                  = (res, st')"
    and dec: "Load input_file sample_rate (Inr buf) \<in> set (calls st')"
    and pos: "0 < clip_duration * sample_rate"
    and k: "k < length (write_calls (calls st'))"
  shows "snd (write_calls (calls st') ! k)
           = (raw_clip buf (clip_duration * sample_rate) (int (length buf)) (int k)
                @ replicate (nat (clip_duration * sample_rate)
                    - length (raw_clip buf (clip_duration * sample_rate) (int (length buf)) (int k))) 0,
              sample_rate)
       \<and> raw_clip buf (clip_duration * sample_rate) (int (length buf)) (int k)
           = take (nat (clip_duration * sample_rate)) (drop (k * nat (clip_duration * sample_rate)) buf)
       \<and> (length (raw_clip buf (clip_duration * sample_rate) (int (length buf)) (int k))
             < nat (clip_duration * sample_rate)
           \<longrightarrow> length buf < (k + 1) * nat (clip_duration * sample_rate))
       \<and> (int (length buf) < 2 ^ 53
           \<and> length (raw_clip buf (clip_duration * sample_rate) (int (length buf)) (int k))
               < nat (clip_duration * sample_rate)
           \<longrightarrow> int k + 1 = \<lceil>(of_nat (length buf) :: rat) / of_int (clip_duration * sample_rate)\<rceil>
               \<and> k + 1 = length (write_calls (calls st')))"
proof -
  let ?s = "clip_duration * sample_rate"
  let ?L = "int (length buf)"
  let ?n = "\<lceil>(of_int ?L :: rat) / of_int ?s\<rceil>"
  let ?raw = "raw_clip buf ?s ?L (int k)"
  define S where "S = nat ?s"
  have S: "0 < S" "int S = ?s" using pos by (simp_all add: S_def)
  from run obtain m and b :: "'a list" where
    w: "write_calls (calls st')
       = map (\<lambda>i. (str_of (clip_path (Path output_dir) (stem (Path input_file)) i),
                    padded_clip b ?s (int (length b)) i, sample_rate)) [0..int m - 1]"
    and l: "\<And>p' r' b'. Load p' r' (Inr b') \<in> set (calls st') \<Longrightarrow> b' = b"
    and lim: "0 < m \<Longrightarrow>
           Load input_file sample_rate (Inr b) \<in> set (calls st')
           \<and> (\<exists>ratio. py_true_div (int (length b)) ?s = Inr ratio \<and> m \<le> nat \<lceil>ratio\<rceil>)"
    by (rule convert_writes) blast
  have b: "b = buf" using l [OF dec] by simp
  have lw: "length (write_calls (calls st')) = m" by (simp add: w)
  from k w have km: "k < m" by simp
  then have nth: "[0..int m - 1] ! k = int k" by (intro nth_upto0) simp
  have data: "snd (write_calls (calls st') ! k)
      = (?raw @ replicate (nat ?s - length ?raw) 0, sample_rate)"
    using km nth pos by (simp add: w b padded_clip_eq)
  have raw: "?raw = take S (drop (k * S) buf)"
    using pos by (simp add: raw_clip_take_drop nat_mult_distrib S_def)
  have short: "length ?raw < S \<Longrightarrow> length buf < (k + 1) * S"
  proof -
    assume "length ?raw < S"
    then have "length buf - k * S < S" by (simp add: raw)
    then show "length buf < (k + 1) * S" by simp
  qed
  have final: "?L < 2 ^ 53 \<and> length ?raw < S \<longrightarrow> int k + 1 = ?n \<and> k + 1 = m"
  proof (intro impI, elim conjE)
    assume small: "?L < 2 ^ 53" and sh: "length ?raw < S"
    from km lim obtain ratio where ratio: "py_true_div ?L ?s = Inr ratio" "m \<le> nat \<lceil>ratio\<rceil>"
      unfolding b by auto
    have "\<lceil>ratio\<rceil> \<le> ?n"
      by (rule py_true_div_ceiling_le [OF _ pos small ratio(1)]) simp
    with ratio(2) have mn: "m \<le> nat ?n" by simp
    with km have lower: "int k + 1 \<le> ?n" by linarith
    from short [OF sh] have "?L < int ((k + 1) * S)" by (simp only: of_nat_less_iff)
    then have "?L \<le> (int k + 1) * ?s" using S(2) by (simp add: algebra_simps)
    then have "(of_int ?L :: rat) \<le> of_int ((int k + 1) * ?s)" by (simp only: of_int_le_iff)
    then have "(of_int ?L :: rat) \<le> of_int (int k + 1) * of_int ?s" by (simp only: of_int_mult)
    moreover have "(0::rat) < of_int ?s" using pos by (simp only: of_int_0_less_iff)
    ultimately have "(of_int ?L :: rat) / of_int ?s \<le> of_int (int k + 1)"
      by (simp only: pos_divide_le_eq)
    then have "?n \<le> int k + 1" by (simp only: ceiling_le_iff)
    with lower have eq: "int k + 1 = ?n" by simp
    with mn km have "k + 1 = m" by linarith
    with eq show "int k + 1 = ?n \<and> k + 1 = m" by simp
  qed
  show ?thesis using data raw short final unfolding S_def lw by simp
qed

theorem padding_is_zeros_only_witness:
  "Load ''track.mp3'' 1 (Inr [1, 2, 3, 4, 5])
     \<in> set (calls (snd (convert_mp3_to_wav_clips (demo_env [1, 2, 3, 4, 5]) demo_fs
                          ''track.mp3'' ''out'' 2 1)))
   \<and> (0::int) < 2 * 1
   \<and> 2 < length (write_calls (calls (snd
         (convert_mp3_to_wav_clips (demo_env [1, 2, 3, 4, 5]) demo_fs ''track.mp3'' ''out'' 2 1))))
   \<and> raw_clip [1, 2, 3, 4, 5 :: int] (2 * 1) (int (length [1, 2, 3, 4, 5 :: int])) (int 2) = [5]
   \<and> length [5 :: int] < nat (2 * 1)
   \<and> int (length [1, 2, 3, 4, 5 :: int]) < 2 ^ 53
   \<and> snd (write_calls (calls (snd
         (convert_mp3_to_wav_clips (demo_env [1, 2, 3, 4, 5]) demo_fs ''track.mp3'' ''out'' 2 1))) ! 2)
       = ([5] @ replicate (nat (2 * 1) - length [5 :: int]) 0, 1)
   \<and> length [1, 2, 3, 4, 5 :: int] < (2 + 1) * nat (2 * 1)
   \<and> int 2 + 1 = \<lceil>(of_nat (length [1, 2, 3, 4, 5 :: int]) :: rat) / of_int (2 * 1)\<rceil>
   \<and> 2 + 1 = length (write_calls (calls (snd
         (convert_mp3_to_wav_clips (demo_env [1, 2, 3, 4, 5]) demo_fs ''track.mp3'' ''out'' 2 1))))"
proof -
  let ?run = "convert_mp3_to_wav_clips (demo_env [1, 2, 3, 4, 5]) demo_fs ''track.mp3'' ''out'' 2 1"
  have run: "?run = (fst ?run, snd ?run)" by simp
  have dec: "Load ''track.mp3'' 1 (Inr [1, 2, 3, 4, 5]) \<in> set (calls (snd ?run))"
    by (simp add: demo_run)
  have pos: "(0::int) < 2 * 1" by simp
  have k: "2 < length (write_calls (calls (snd ?run)))"
    by (simp add: demo_run write_calls_simps)
  have raw: "raw_clip [1, 2, 3, 4, 5 :: int] (2 * 1) (int (length [1, 2, 3, 4, 5 :: int])) (int 2) = [5]"
    by (simp add: raw_clip_def py_slice_def Let_def)
  have small: "int (length [1, 2, 3, 4, 5 :: int]) < 2 ^ 53"
    by simp
  show ?thesis
    using dec pos k raw small padding_is_zeros_only [OF run dec pos k] by simp
qed

text \<open>
  Claim C4, as amended. Under the same bounds as for C1, the clips written by a run
  that returns, concatenated in order and cut after the first \<open>L\<close> samples, are the
  decoded buffer.
\<close>

theorem clips_reconstruct_buffer:
  fixes env :: "'a::zero env"
  assumes run: "convert_mp3_to_wav_clips env f input_file output_dir clip_duration sample_rate
                  = (Inr created, st')"
    and dec: "Load input_file sample_rate (Inr buf) \<in> set (calls st')"
    and pos: "0 < clip_duration * sample_rate"
    and small: "int (length buf) < 2 ^ 53" "clip_duration * sample_rate < 2 ^ 1075"
  shows "take (length buf) (concat (map (\<lambda>(p, d, r). d) (write_calls (calls st')))) = buf"
proof -
  let ?s = "clip_duration * sample_rate"
  let ?L = "int (length buf)"
  let ?n = "\<lceil>(of_int ?L :: rat) / of_int ?s\<rceil>"
  define S where "S = nat ?s"
  have S: "0 < S" "int S = ?s" using pos by (simp_all add: S_def)
  from run obtain m and b :: "'a list" where
    w: "write_calls (calls st')
       = map (\<lambda>i. (str_of (clip_path (Path output_dir) (stem (Path input_file)) i),
                    padded_clip b ?s (int (length b)) i, sample_rate)) [0..int m - 1]"
    and l: "\<And>p' r' b'. Load p' r' (Inr b') \<in> set (calls st') \<Longrightarrow> b' = b"
    and c: "\<And>cr. Inr created = Inr cr \<Longrightarrow>
           cr = map (\<lambda>i. str_of (clip_path (Path output_dir) (stem (Path input_file)) i)) [0..int m - 1]
           \<and> Load input_file sample_rate (Inr b) \<in> set (calls st')
           \<and> (\<exists>ratio. py_true_div (int (length b)) ?s = Inr ratio \<and> m = nat \<lceil>ratio\<rceil>)"
    by (rule convert_writes) blast
  have b: "b = buf" using l [OF dec] by simp
  from c [OF refl] obtain ratio where ratio: "py_true_div ?L ?s = Inr ratio" "m = nat \<lceil>ratio\<rceil>"
    unfolding b by blast
  from py_true_div_ceiling [OF _ pos small] obtain r where
    "py_true_div ?L ?s = Inr r" "\<lceil>r\<rceil> = ?n"
    by auto
  with ratio have m: "m = nat ?n" by simp
  have n0: "0 \<le> ?n" using pos by (intro ceiling_quotient_nonneg) simp_all
  have "?L \<le> ?n * ?s" by (rule ceiling_quotient_bounds(2) [OF pos])
  also have "\<dots> = int (m * S)" using m n0 S(2) by simp
  finally have cover: "length buf \<le> m * S" by (simp only: of_nat_le_iff)
  let ?B = "buf @ replicate (m * S - length buf) 0"
  have "map (\<lambda>(p, d, r). d) (write_calls (calls st'))
      = map (\<lambda>j. padded_clip buf (int S) ?L (int j)) [0..<m]"
    using upto0_map_int [of "int m"] by (simp add: w b S(2) comp_def)
  also have "\<dots> = map (\<lambda>j. take S (drop (j * S) ?B)) [0..<m]"
    using S(1) cover by (intro map_cong refl padded_clip_padded_window) simp_all
  finally have "concat (map (\<lambda>(p, d, r). d) (write_calls (calls st'))) = take (m * S) ?B"
    by (simp only: chunks_concat)
  also have "\<dots> = ?B" using cover by simp
  finally show ?thesis by simp
qed

theorem clips_reconstruct_buffer_witness:
  "Load ''track.mp3'' 1 (Inr [1, 2, 3, 4, 5])
     \<in> set (calls (snd (convert_mp3_to_wav_clips (demo_env [1, 2, 3, 4, 5]) demo_fs
                          ''track.mp3'' ''out'' 2 1)))
   \<and> (0::int) < 2 * 1 \<and> int (length [1, 2, 3, 4, 5 :: int]) < 2 ^ 53 \<and> (2::int) * 1 < 2 ^ 1075
   \<and> concat (map (\<lambda>(p, d, r). d) (write_calls (calls (snd
         (convert_mp3_to_wav_clips (demo_env [1, 2, 3, 4, 5]) demo_fs ''track.mp3'' ''out'' 2 1)))))
       = [1, 2, 3, 4, 5, 0]
   \<and> take (length [1, 2, 3, 4, 5 :: int]) (concat (map (\<lambda>(p, d, r). d) (write_calls (calls (snd
         (convert_mp3_to_wav_clips (demo_env [1, 2, 3, 4, 5]) demo_fs ''track.mp3'' ''out'' 2 1))))))
       = [1, 2, 3, 4, 5]"
proof -
  let ?run = "convert_mp3_to_wav_clips (demo_env [1, 2, 3, 4, 5]) demo_fs ''track.mp3'' ''out'' 2 1"
  have run: "?run = (Inr [''out/track_clip_001.wav'', ''out/track_clip_002.wav'',
                          ''out/track_clip_003.wav''], snd ?run)"
    using demo_run(1) by (simp add: prod_eq_iff)
  have dec: "Load ''track.mp3'' 1 (Inr [1, 2, 3, 4, 5]) \<in> set (calls (snd ?run))"
    by (simp add: demo_run)
  have pos: "(0::int) < 2 * 1" by simp
  have s1: "int (length [1, 2, 3, 4, 5 :: int]) < 2 ^ 53" by simp
  have s2: "(2::int) * 1 < 2 ^ 1075" by simp
  have v: "concat (map (\<lambda>(p, d, r). d) (write_calls (calls (snd ?run)))) = [1, 2, 3, 4, 5, 0]"
    by (simp add: demo_run write_calls_simps)
  from clips_reconstruct_buffer [OF run dec pos s1 s2] v dec pos s1 s2
  show ?thesis by blast
qed

text \<open>
  Claim C4 as stated fails on the input that refutes C1: the run returns, a buffer of
  one sample was decoded, no clip was written, and nothing can be cut from the empty
  concatenation.
\<close>

theorem clips_reconstruct_buffer_counterexample:
  "fst (convert_mp3_to_wav_clips (demo_env [7]) demo_fs ''track.mp3'' ''out'' (2 ^ 1075) 1) = Inr []
   \<and> Load ''track.mp3'' 1 (Inr [7])
       \<in> set (calls (snd (convert_mp3_to_wav_clips (demo_env [7]) demo_fs ''track.mp3'' ''out''
                             (2 ^ 1075) 1)))
   \<and> (0::int) < 2 ^ 1075 * 1
   \<and> take (length [7 :: int]) (concat (map (\<lambda>(p, d, r). d) (write_calls (calls (snd
         (convert_mp3_to_wav_clips (demo_env [7]) demo_fs ''track.mp3'' ''out'' (2 ^ 1075) 1))))))
       \<noteq> [7]"
  using underflow_run by (simp add: write_calls_simps)

text \<open>
  Claim C5. The clips written depend on the decoded buffer, the clip duration and the
  sample rate only. Two successful runs that decoded the same buffer, with the same
  clip duration and sample rate, write the same sequence of sample lists (padding
  included) at the same rate, whatever their environments, filesystems, input paths and
  output directories are.
\<close>

theorem clips_depend_on_buffer_and_configuration_only:
  fixes env1 env2 :: "'a::zero env"
  assumes run1: "convert_mp3_to_wav_clips env1 f1 input_file1 output_dir1 clip_duration sample_rate
                   = (Inr created1, st1)"
    and run2: "convert_mp3_to_wav_clips env2 f2 input_file2 output_dir2 clip_duration sample_rate
                   = (Inr created2, st2)"
    and dec1: "Load input_file1 sample_rate (Inr buf) \<in> set (calls st1)"
    and dec2: "Load input_file2 sample_rate (Inr buf) \<in> set (calls st2)"
  shows "map (\<lambda>(p, d, r). (d, r)) (write_calls (calls st1))
           = map (\<lambda>(p, d, r). (d, r)) (write_calls (calls st2))"
proof -
  from run1 obtain m1 and b1 :: "'a list" where
    w1: "write_calls (calls st1)
       = map (\<lambda>i. (str_of (clip_path (Path output_dir1) (stem (Path input_file1)) i),
                    padded_clip b1 (clip_duration * sample_rate) (int (length b1)) i, sample_rate))
           [0..int m1 - 1]"
    and l1: "\<And>p' r' b. Load p' r' (Inr b) \<in> set (calls st1) \<Longrightarrow> b = b1"
    and c1: "\<And>created. Inr created1 = Inr created \<Longrightarrow>
           created = map (\<lambda>i. str_of (clip_path (Path output_dir1) (stem (Path input_file1)) i)) [0..int m1 - 1]
           \<and> Load input_file1 sample_rate (Inr b1) \<in> set (calls st1)
           \<and> (\<exists>ratio. py_true_div (int (length b1)) (clip_duration * sample_rate) = Inr ratio \<and> m1 = nat \<lceil>ratio\<rceil>)"
    by (rule convert_writes) blast
  from run2 obtain m2 and b2 :: "'a list" where
    w2: "write_calls (calls st2)
       = map (\<lambda>i. (str_of (clip_path (Path output_dir2) (stem (Path input_file2)) i),
                    padded_clip b2 (clip_duration * sample_rate) (int (length b2)) i, sample_rate))
           [0..int m2 - 1]"
    and l2: "\<And>p' r' b. Load p' r' (Inr b) \<in> set (calls st2) \<Longrightarrow> b = b2"
    and c2: "\<And>created. Inr created2 = Inr created \<Longrightarrow>
           created = map (\<lambda>i. str_of (clip_path (Path output_dir2) (stem (Path input_file2)) i)) [0..int m2 - 1]
           \<and> Load input_file2 sample_rate (Inr b2) \<in> set (calls st2)
           \<and> (\<exists>ratio. py_true_div (int (length b2)) (clip_duration * sample_rate) = Inr ratio \<and> m2 = nat \<lceil>ratio\<rceil>)"
    by (rule convert_writes) blast
  have b1: "b1 = buf" using l1 [OF dec1] by simp
  have b2: "b2 = buf" using l2 [OF dec2] by simp
  from c1 [OF refl] obtain q1 where
    "py_true_div (int (length buf)) (clip_duration * sample_rate) = Inr q1" "m1 = nat \<lceil>q1\<rceil>"
    unfolding b1 by blast
  moreover from c2 [OF refl] obtain q2 where
    "py_true_div (int (length buf)) (clip_duration * sample_rate) = Inr q2" "m2 = nat \<lceil>q2\<rceil>"
    unfolding b2 by blast
  ultimately have "m1 = m2" by simp
  then show ?thesis by (simp add: w1 w2 b1 b2)
qed

theorem clips_depend_on_buffer_and_configuration_only_witness:
  "Load ''track.mp3'' 1 (Inr [1, 2, 3, 4, 5])
     \<in> set (calls (snd (convert_mp3_to_wav_clips (demo_env [1, 2, 3, 4, 5]) demo_fs
                          ''track.mp3'' ''out'' 2 1)))
   \<and> Load ''in/song.MP3'' 1 (Inr [1, 2, 3, 4, 5])
     \<in> set (calls (snd (convert_mp3_to_wav_clips (failing_env [1, 2, 3, 4, 5] ''nowhere'') other_fs
                          ''in/song.MP3'' ''a/b/'' 2 1)))
   \<and> map (\<lambda>(p, d, r). (d, r)) (write_calls (calls (snd
         (convert_mp3_to_wav_clips (demo_env [1, 2, 3, 4, 5]) demo_fs ''track.mp3'' ''out'' 2 1))))
     = map (\<lambda>(p, d, r). (d, r)) (write_calls (calls (snd
         (convert_mp3_to_wav_clips (failing_env [1, 2, 3, 4, 5] ''nowhere'') other_fs
            ''in/song.MP3'' ''a/b/'' 2 1))))
   \<and> map (\<lambda>(p, d, r). (d, r)) (write_calls (calls (snd
         (convert_mp3_to_wav_clips (demo_env [1, 2, 3, 4, 5]) demo_fs ''track.mp3'' ''out'' 2 1))))
     = [([1, 2], 1), ([3, 4], 1), ([5, 0], 1)]"
proof -
  let ?run1 = "convert_mp3_to_wav_clips (demo_env [1, 2, 3, 4, 5]) demo_fs ''track.mp3'' ''out'' 2 1"
  let ?run2 = "convert_mp3_to_wav_clips (failing_env [1, 2, 3, 4, 5] ''nowhere'') other_fs
                 ''in/song.MP3'' ''a/b/'' 2 1"
  have run1: "?run1 = (Inr [''out/track_clip_001.wav'', ''out/track_clip_002.wav'',
                            ''out/track_clip_003.wav''], snd ?run1)"
    using demo_run(1) by (simp add: prod_eq_iff)
  have run2: "?run2 = (Inr [''a/b/song_clip_001.wav'', ''a/b/song_clip_002.wav'',
                            ''a/b/song_clip_003.wav''], snd ?run2)"
    using other_run(1) by (simp add: prod_eq_iff)
  have dec1: "Load ''track.mp3'' 1 (Inr [1, 2, 3, 4, 5]) \<in> set (calls (snd ?run1))"
    by (simp add: demo_run)
  have dec2: "Load ''in/song.MP3'' 1 (Inr [1, 2, 3, 4, 5]) \<in> set (calls (snd ?run2))"
    by (simp add: other_run)
  have v: "map (\<lambda>(p, d, r). (d, r)) (write_calls (calls (snd ?run1)))
             = [([1, 2], 1), ([3, 4], 1), ([5, 0], 1)]"
    by (simp add: demo_run write_calls_simps)
  show ?thesis
    using dec1 dec2 v clips_depend_on_buffer_and_configuration_only [OF run1 run2 dec1 dec2]
    by simp
qed

text \<open>
  Claim C8. With an existing \<^verbatim>\<open>.mp3\<close> input, a positive clip duration and sample
  rate, a directory creation that succeeds and a decoder that returns the empty buffer,
  the function returns the empty list of paths. It has called \<^verbatim>\<open>mkdir\<close> and
  \<^verbatim>\<open>librosa.load\<close> and nothing else, so no file was written; the output
  directory exists afterwards, and the only entries that differ from before are new
  directories.
\<close>

theorem empty_buffer_gives_no_clips:
  fixes env :: "'a::zero env"
  assumes "exists env f (Path input_file) = Inr True"
    and "lower (suffix (Path input_file)) = ''.mp3''"
    and "0 < clip_duration" and "0 < sample_rate"
    and "mkdir_fault env f (str_of (Path output_dir)) = None"
    and "librosa_load env (make_dirs f (Path output_dir)) input_file sample_rate = Inr []"
  shows "convert_mp3_to_wav_clips env f input_file output_dir clip_duration sample_rate
           = (Inr [], \<lparr> fs = make_dirs f (Path output_dir),
                        calls = [Mkdir (str_of (Path output_dir)) None,
                                 Load input_file sample_rate (Inr [])] \<rparr>)
         \<and> write_calls [Mkdir (str_of (Path output_dir)) None,
                         Load input_file sample_rate (Inr ([] :: 'a list))] = []
         \<and> make_dirs f (Path output_dir) (str_of (Path output_dir)) \<noteq> None
         \<and> (\<forall>p. make_dirs f (Path output_dir) p \<noteq> f p
                \<longrightarrow> f p = None \<and> make_dirs f (Path output_dir) p = Some Directory)"
proof -
  have "clip_duration * sample_rate \<noteq> 0" using assms(3,4) by simp
  then have "py_true_div 0 (clip_duration * sample_rate) = Inr 0" by (rule py_true_div_zero)
  moreover have "py_true_div 0 sample_rate = Inr 0" using assms(4) by (intro py_true_div_zero) simp
  ultimately have "convert_mp3_to_wav_clips env f input_file output_dir clip_duration sample_rate
           = (Inr [], \<lparr> fs = make_dirs f (Path output_dir),
                        calls = [Mkdir (str_of (Path output_dir)) None,
                                 Load input_file sample_rate (Inr [])] \<rparr>)"
    using assms by (simp add: convert_mp3_to_wav_clips_def Let_def mkdir_def load_def)
  moreover have "\<And>p. make_dirs f (Path output_dir) p \<noteq> f p
                \<longrightarrow> f p = None \<and> make_dirs f (Path output_dir) p = Some Directory"
    by (simp add: make_dirs_def)
  ultimately show ?thesis using make_dirs_exists by (simp add: write_calls_simps)
qed

theorem empty_buffer_gives_no_clips_witness:
  "exists (demo_env []) demo_fs (Path ''track.mp3'') = Inr True
   \<and> lower (suffix (Path ''track.mp3'')) = ''.mp3''
   \<and> convert_mp3_to_wav_clips (demo_env []) demo_fs ''track.mp3'' ''out'' 10 16000
       = (Inr [], \<lparr> fs = make_dirs demo_fs (Path ''out''),
                    calls = [Mkdir ''out'' None, Load ''track.mp3'' 16000 (Inr [])] \<rparr>)
   \<and> make_dirs demo_fs (Path ''out'') ''out'' = Some Directory"
proof -
  have h1: "exists (demo_env []) demo_fs (Path ''track.mp3'') = Inr True" by (rule demo_input_valid)
  have h2: "lower (suffix (Path ''track.mp3'')) = ''.mp3''" by (simp add: run_defs)
  have h3: "(0::int) < 10" and h4: "(0::int) < 16000" by simp_all
  have h5: "mkdir_fault (demo_env []) demo_fs (str_of (Path ''out'')) = None"
    by (simp add: demo_env_def)
  have h6: "librosa_load (demo_env []) (make_dirs demo_fs (Path ''out'')) ''track.mp3'' 16000 = Inr []"
    by (simp add: demo_env_def)
  have s: "str_of (Path ''out'') = ''out''" by (simp add: run_defs)
  have d: "demo_fs ''out'' = None" by (simp add: demo_fs_def)
  note conc = empty_buffer_gives_no_clips [OF h1 h2 h3 h4 h5 h6]
  from conc have "make_dirs demo_fs (Path ''out'') (str_of (Path ''out'')) \<noteq> None" by blast
  then have "make_dirs demo_fs (Path ''out'') ''out'' \<noteq> demo_fs ''out''"
    using s d by simp
  moreover from conc have "make_dirs demo_fs (Path ''out'') ''out'' \<noteq> demo_fs ''out''
      \<longrightarrow> make_dirs demo_fs (Path ''out'') ''out'' = Some Directory"
    by blast
  ultimately have "make_dirs demo_fs (Path ''out'') ''out'' = Some Directory" by blast
  then show ?thesis
    using h1 h2 s conc by simp
qed

subsection \<open>The output files\<close>

text \<open>
  Claim C6. The \<open>k\<close>-th write of a run (counting from 0) goes to the path made of the
  output directory and one more name: the stem of the input file, \<^verbatim>\<open>_clip_\<close>, the
  number \<open>k + 1\<close> in format \<^verbatim>\<open>03d\<close>, and \<^verbatim>\<open>.wav\<close>. The number is a string of
  decimal digits that denotes \<open>k + 1\<close>, at least three characters long and exactly three
  below 1000. When the run succeeds, the \<open>k\<close>-th returned path is that same path. And
  when that write returned, the filesystem the run leaves behind holds at that path
  the WAV file of the clip: the samples handed to the write, converted to 16 bits, at
  the sample rate.
\<close>

theorem clip_files_are_numbered:
  fixes env :: "'a::zero env"
  assumes run: "convert_mp3_to_wav_clips env f input_file output_dir clip_duration sample_rate
                  = (res, st')"
    and k: "k < length (write_calls (calls st'))"
  shows "fst (write_calls (calls st') ! k)
           = str_of \<lparr> root = root (Path output_dir),
                      names = names (Path output_dir)
                        @ [stem (Path input_file) @ ''_clip_'' @ format_03d (int k + 1) @ ''.wav''] \<rparr>
         \<and> decimal_value (format_03d (int k + 1)) = k + 1
         \<and> list_all is_digit (format_03d (int k + 1))
         \<and> 3 \<le> length (format_03d (int k + 1))
         \<and> (k + 1 < 1000 \<longrightarrow> length (format_03d (int k + 1)) = 3)
         \<and> (\<forall>created. res = Inr created \<longrightarrow>
               k < length created \<and> created ! k = fst (write_calls (calls st') ! k)
               \<and> fs st' (created ! k)
                   = Some (Wav (map (pcm_16 env) (fst (snd (write_calls (calls st') ! k))))
                             sample_rate))
         \<and> (\<forall>d r. Write (fst (write_calls (calls st') ! k)) d r None \<in> set (calls st') \<longrightarrow>
               (d, r) = snd (write_calls (calls st') ! k)
               \<and> fs st' (fst (write_calls (calls st') ! k)) = Some (Wav (map (pcm_16 env) d) r))"
proof -
  let ?P = "\<lambda>i. str_of (clip_path (Path output_dir) (stem (Path input_file)) i)"
  from run obtain m and buf :: "'a list" where
    w: "write_calls (calls st')
       = map (\<lambda>i. (?P i,
                    padded_clip buf (clip_duration * sample_rate) (int (length buf)) i, sample_rate))
           [0..int m - 1]"
    and c: "\<And>created. res = Inr created \<Longrightarrow>
           created = map ?P [0..int m - 1]
           \<and> Load input_file sample_rate (Inr buf) \<in> set (calls st')
           \<and> (\<exists>ratio. py_true_div (int (length buf)) (clip_duration * sample_rate) = Inr ratio \<and> m = nat \<lceil>ratio\<rceil>)"
    by (rule convert_writes) blast
  let ?C = "\<lambda>i. padded_clip buf (clip_duration * sample_rate) (int (length buf)) i"
  from k w have km: "k < m" by simp
  then have nth: "[0..int m - 1] ! k = int k" by (intro nth_upto0) simp
  have wk: "write_calls (calls st') ! k = (?P (int k), ?C (int k), sample_rate)"
    using km nth by (simp add: w)
  have "fst (write_calls (calls st') ! k) = ?P (int k)"
    by (simp add: wk)
  also have "\<dots> = str_of \<lparr> root = root (Path output_dir),
                      names = names (Path output_dir)
                        @ [stem (Path input_file) @ ''_clip_'' @ format_03d (int k + 1) @ ''.wav''] \<rparr>"
    by (simp add: clip_path_eq stem_no_sep clip_filename_def)
  finally have path: "fst (write_calls (calls st') ! k)
           = str_of \<lparr> root = root (Path output_dir),
                      names = names (Path output_dir)
                        @ [stem (Path input_file) @ ''_clip_'' @ format_03d (int k + 1) @ ''.wav''] \<rparr>" .
  have stored: "\<forall>d r. Write (fst (write_calls (calls st') ! k)) d r None \<in> set (calls st') \<longrightarrow>
               (d, r) = snd (write_calls (calls st') ! k)
               \<and> fs st' (fst (write_calls (calls st') ! k)) = Some (Wav (map (pcm_16 env) d) r)"
  proof (intro allI impI conjI)
    fix d r assume W: "Write (fst (write_calls (calls st') ! k)) d r None \<in> set (calls st')"
    then show "fs st' (fst (write_calls (calls st') ! k)) = Some (Wav (map (pcm_16 env) d) r)"
      by (rule successful_write_stored [OF run])
    from W have "(?P (int k), d, r) \<in> set (write_calls (calls st'))"
      unfolding wk fst_conv by (rule Write_in_write_calls)
    then obtain i where i: "0 \<le> i" and eq: "?P (int k) = ?P i" "d = ?C i" "r = sample_rate"
      unfolding w by auto
    from eq(1) i have "int k = i"
      by (intro inj_onD [OF clip_file_inj_on, of output_dir input_file]) simp_all
    then show "(d, r) = snd (write_calls (calls st') ! k)"
      using eq by (simp add: wk)
  qed
  have all: "Write (?P (int k)) (?C (int k)) sample_rate None \<in> set (calls st')"
    if ok: "res = Inr created" for created
    using run
  proof (cases rule: convert_run)
    case (early e)
    with ok show ?thesis by simp
  next
    case (nodiv e b)
    with ok show ?thesis by simp
  next
    case (loop b ratio k' tail)
    let ?C' = "\<lambda>i. padded_clip b (clip_duration * sample_rate) (int (length b)) i"
    from loop(5) ok have tail: "tail = []" by (elim disjE exE conjE) simp_all
    have calls: "calls st' = [Mkdir (str_of (Path output_dir)) None,
                              Load input_file sample_rate (Inr b)]
                       @ map (\<lambda>i. Write (?P i) (?C' i) sample_rate None) [0..int k' - 1]"
      using loop(4) tail by simp
    have w': "write_calls (calls st') = map (\<lambda>i. (?P i, ?C' i, sample_rate)) [0..int k' - 1]"
      by (simp only: calls write_calls_simps write_calls_map append_Nil)
    with k have kk: "k < k'" by simp
    then have nth': "[0..int k' - 1] ! k = int k" by (intro nth_upto0) simp
    have "write_calls (calls st') ! k = (?P (int k), ?C' (int k), sample_rate)"
      using kk nth' by (simp add: w')
    with wk have same: "?C' (int k) = ?C (int k)" by simp
    have "int k \<in> set [0..int k' - 1]" using kk by simp
    then have "(\<lambda>i. Write (?P i) (?C' i) sample_rate None) (int k)
                 \<in> (\<lambda>i. Write (?P i) (?C' i) sample_rate None) ` set [0..int k' - 1]"
      by (rule imageI)
    then have "Write (?P (int k)) (?C (int k)) sample_rate None
                 \<in> set (map (\<lambda>i. Write (?P i) (?C' i) sample_rate None) [0..int k' - 1])"
      unfolding same [symmetric] by (simp only: set_map)
    then show ?thesis by (simp only: calls set_append) simp
  qed
  have created: "\<forall>created. res = Inr created \<longrightarrow>
               k < length created \<and> created ! k = fst (write_calls (calls st') ! k)
               \<and> fs st' (created ! k)
                   = Some (Wav (map (pcm_16 env) (fst (snd (write_calls (calls st') ! k))))
                             sample_rate)"
  proof (intro allI impI)
    fix created assume ok: "res = Inr created"
    from c [OF this] have "created = map ?P [0..int m - 1]"
      by simp
    then have ck: "k < length created" "created ! k = ?P (int k)"
      using km nth by simp_all
    have "fs st' (?P (int k)) = Some (Wav (map (pcm_16 env) (?C (int k))) sample_rate)"
      using run all [OF ok] by (rule successful_write_stored)
    then show "k < length created \<and> created ! k = fst (write_calls (calls st') ! k)
               \<and> fs st' (created ! k)
                   = Some (Wav (map (pcm_16 env) (fst (snd (write_calls (calls st') ! k))))
                             sample_rate)"
      using ck by (simp add: wk)
  qed
  have "decimal_value (format_03d (int k + 1)) = k + 1"
    by (simp add: decimal_value_format_03d nat_add_distrib)
  moreover have "list_all is_digit (format_03d (int k + 1))" by (simp add: list_all_is_digit)
  moreover have "3 \<le> length (format_03d (int k + 1))" by (simp add: length_format_03d)
  moreover have "k + 1 < 1000 \<longrightarrow> length (format_03d (int k + 1)) = 3"
    by (simp add: length_format_03d_small)
  ultimately show ?thesis using path created stored by blast
qed

theorem clip_files_are_numbered_witness:
  "0 < length (write_calls (calls (snd
         (convert_mp3_to_wav_clips (demo_env [1, 2, 3, 4, 5]) demo_fs ''track.mp3'' ''out'' 2 1))))
   \<and> fst (convert_mp3_to_wav_clips (demo_env [1, 2, 3, 4, 5]) demo_fs ''track.mp3'' ''out'' 2 1)
       = Inr [''out/track_clip_001.wav'', ''out/track_clip_002.wav'', ''out/track_clip_003.wav'']
   \<and> Write ''out/track_clip_001.wav'' [1, 2] 1 None
       \<in> set (calls (snd
           (convert_mp3_to_wav_clips (demo_env [1, 2, 3, 4, 5]) demo_fs ''track.mp3'' ''out'' 2 1)))
   \<and> (0::nat) + 1 < 1000
   \<and> fst (write_calls (calls (snd
         (convert_mp3_to_wav_clips (demo_env [1, 2, 3, 4, 5]) demo_fs ''track.mp3'' ''out'' 2 1))) ! 0)
       = ''out/track_clip_001.wav''
   \<and> str_of \<lparr> root = root (Path ''out''),
               names = names (Path ''out'')
                 @ [stem (Path ''track.mp3'') @ ''_clip_'' @ format_03d (int 0 + 1) @ ''.wav''] \<rparr>
       = ''out/track_clip_001.wav''
   \<and> length (format_03d (int 0 + 1)) = 3
   \<and> fs (snd (convert_mp3_to_wav_clips (demo_env [1, 2, 3, 4, 5]) demo_fs ''track.mp3'' ''out'' 2 1))
        ''out/track_clip_001.wav''
       = Some (Wav [1, 2] 1)"
proof -
  let ?run = "convert_mp3_to_wav_clips (demo_env [1, 2, 3, 4, 5]) demo_fs ''track.mp3'' ''out'' 2 1"
  have run: "?run = (Inr [''out/track_clip_001.wav'', ''out/track_clip_002.wav'',
                          ''out/track_clip_003.wav''], snd ?run)"
    using demo_run(1) by (simp add: prod_eq_iff)
  have ok: "fst ?run = Inr [''out/track_clip_001.wav'', ''out/track_clip_002.wav'',
                            ''out/track_clip_003.wav'']"
    by (rule demo_run(1))
  have k: "0 < length (write_calls (calls (snd ?run)))"
    by (simp add: demo_run write_calls_simps)
  have p: "fst (write_calls (calls (snd ?run)) ! 0) = ''out/track_clip_001.wav''"
    by (simp add: demo_run write_calls_simps)
  have W: "Write ''out/track_clip_001.wav'' [1, 2] 1 None \<in> set (calls (snd ?run))"
    by (simp add: demo_run)
  have small: "(0::nat) + 1 < 1000" by simp
  have pcm: "map (pcm_16 (demo_env [1, 2, 3, 4, 5])) [1, 2] = [1, 2]"
    by (simp add: demo_env_def)
  note conc = clip_files_are_numbered [OF run k, unfolded p]
  from conc have "\<forall>d r. Write ''out/track_clip_001.wav'' d r None \<in> set (calls (snd ?run)) \<longrightarrow>
               (d, r) = snd (write_calls (calls (snd ?run)) ! 0)
               \<and> fs (snd ?run) ''out/track_clip_001.wav''
                   = Some (Wav (map (pcm_16 (demo_env [1, 2, 3, 4, 5])) d) r)"
    by (elim conjE)
  from this [THEN spec, THEN spec, THEN mp, OF W]
  have stored: "fs (snd ?run) ''out/track_clip_001.wav'' = Some (Wav [1, 2] 1)"
    unfolding pcm by (elim conjE)
  from conc have name: "''out/track_clip_001.wav''
      = str_of \<lparr> root = root (Path ''out''),
               names = names (Path ''out'')
                 @ [stem (Path ''track.mp3'') @ ''_clip_'' @ format_03d (int 0 + 1) @ ''.wav''] \<rparr>"
    by (elim conjE)
  from conc have "(0::nat) + 1 < 1000 \<longrightarrow> length (format_03d (int 0 + 1)) = 3"
    by (elim conjE)
  from this [THEN mp, OF small] have three: "length (format_03d (int 0 + 1)) = 3" .
  from k ok W small p name [symmetric] three stored show ?thesis
    by (intro conjI)
qed

text \<open>
  Claim C9. In every run the writes attempted are those of clips 0, 1, 2, ... in this
  order, each with its own path, its own samples and the sample rate. When a write
  raises \<open>e\<close>, it is the write of some clip \<open>k\<close> and the last call of the run: the
  function ends with \<open>e\<close>, the calls before it are the directory creation, the decoding
  and the successful writes of clips 0 to \<open>k - 1\<close>. Nothing is rolled back: the files
  of those clips are still there, each with the samples written to it, converted to 16
  bits. The path of every clip after \<open>k\<close> is as it was before the loop started. What
  is at the path of clip \<open>k\<close> itself is what the failed write left there.
\<close>

theorem encoding_is_sequential_and_aborts:
  fixes env :: "'a::zero env"
  assumes run: "convert_mp3_to_wav_clips env f input_file output_dir clip_duration sample_rate
                  = (res, st')"
  shows "\<exists>m buf.
           write_calls (calls st')
             = map (\<lambda>i. (str_of (clip_path (Path output_dir) (stem (Path input_file)) i),
                          padded_clip buf (clip_duration * sample_rate) (int (length buf)) i,
                          sample_rate)) [0..int m - 1]
         \<and> (\<forall>p d r e. Write p d r (Some e) \<in> set (calls st') \<longrightarrow>
               (\<exists>k. m = Suc k \<and> res = Inl e
                  \<and> calls st'
                      = [Mkdir (str_of (Path output_dir)) None, Load input_file sample_rate (Inr buf)]
                        @ map (\<lambda>i. Write (str_of (clip_path (Path output_dir) (stem (Path input_file)) i))
                                     (padded_clip buf (clip_duration * sample_rate) (int (length buf)) i)
                                     sample_rate None) [0..int k - 1]
                        @ [Write p d r (Some e)]
                  \<and> p = str_of (clip_path (Path output_dir) (stem (Path input_file)) (int k))
                  \<and> d = padded_clip buf (clip_duration * sample_rate) (int (length buf)) (int k)
                  \<and> r = sample_rate
                  \<and> (\<forall>j<k. fs st' (str_of (clip_path (Path output_dir) (stem (Path input_file)) (int j)))
                             = Some (Wav (map (pcm_16 env)
                                            (padded_clip buf (clip_duration * sample_rate)
                                               (int (length buf)) (int j))) sample_rate))
                  \<and> (\<forall>j>k. fs st' (str_of (clip_path (Path output_dir) (stem (Path input_file)) (int j)))
                             = make_dirs f (Path output_dir)
                                 (str_of (clip_path (Path output_dir) (stem (Path input_file)) (int j))))
                  \<and> (\<exists>before left. sf_write_fault env before p d r = Some (e, left)
                         \<and> fs st' = before(p := left))))"
  using run
proof (cases rule: convert_run)
  case (early e0)
  have "\<And>p d r e. Write p d r (Some e) \<notin> set (calls st')"
    using early(2) by (rule no_Write_if_no_write_calls)
  then show ?thesis
    using early(2) by (intro exI [of _ 0] exI [of _ "[]"]) simp
next
  case (nodiv e0 buf)
  then show ?thesis
    by (intro exI [of _ 0] exI [of _ buf]) (simp add: write_calls_simps)
next
  case (loop buf ratio k tail)
  let ?P = "\<lambda>i. str_of (clip_path (Path output_dir) (stem (Path input_file)) i)"
  let ?C = "\<lambda>i. padded_clip buf (clip_duration * sample_rate) (int (length buf)) i"
  let ?V = "\<lambda>i. Wav (map (pcm_16 env) (?C i)) sample_rate"
  note calls = loop(4)
  let ?F = "foldl (\<lambda>f i. f(?P i \<mapsto> ?V i)) (make_dirs f (Path output_dir)) [0..int k - 1]"
  from loop(5) consider
    (clean) "tail = []"
  | (fault) e0 left where "res = Inl e0"
      "tail = [Write (?P (int k)) (?C (int k)) sample_rate (Some e0)]"
      "sf_write_fault env ?F (?P (int k)) (?C (int k)) sample_rate = Some (e0, left)"
      "fs st' = ?F(?P (int k) := left)"
    by (elim disjE exE conjE) blast+
  then show ?thesis
  proof cases
    case clean
    have "\<And>p d r e. Write p d r (Some e) \<notin> set (calls st')"
      by (simp only: calls clean) auto
    moreover have "write_calls (calls st') = map (\<lambda>i. (?P i, ?C i, sample_rate)) [0..int k - 1]"
      by (simp only: calls clean write_calls_simps write_calls_map append_Nil2 append_Nil)
    ultimately show ?thesis
      by (intro exI [of _ k] exI [of _ buf]) simp
  next
    case (fault e0 left)
    have w: "write_calls (calls st') = map (\<lambda>i. (?P i, ?C i, sample_rate)) [0..int (Suc k) - 1]"
    proof -
      have "write_calls (calls st') = map (\<lambda>i. (?P i, ?C i, sample_rate)) ([0..int k - 1] @ [int k])"
        by (simp only: calls fault(2) write_calls_simps write_calls_map append_Nil2 append_Nil
              map_append list.map)
      then show ?thesis by (simp only: upto0_snoc)
    qed
    have residue: "\<exists>before left. sf_write_fault env before (?P (int k)) (?C (int k)) sample_rate
                       = Some (e0, left) \<and> fs st' = before(?P (int k) := left)"
      using fault(3,4) by blast
    have only: "\<And>p d r e. Write p d r (Some e) \<in> set (calls st') \<Longrightarrow>
        p = ?P (int k) \<and> d = ?C (int k) \<and> r = sample_rate \<and> e = e0"
      by (simp only: calls fault(2)) auto
    have inj: "inj_on ?P (set [0..int k - 1])"
      by (rule inj_on_subset [OF clip_file_inj_on]) auto
    have other: "?P (int j) \<noteq> ?P (int k)" if "j \<noteq> k" for j
    proof
      assume "?P (int j) = ?P (int k)"
      then have "int j = int k"
        by (intro inj_onD [OF clip_file_inj_on, of output_dir input_file]) simp_all
      with that show False by simp
    qed
    have kept: "\<And>j. j < k \<Longrightarrow> fs st' (?P (int j)) = Some (?V (int j))"
    proof -
      fix j assume jk: "j < k"
      then have mem: "int j \<in> set [0..int k - 1]" by simp
      from jk have "tail = [] \<or> ?P (int j) \<noteq> ?P (int k)" using other [of j] by simp
      then have "fs st' (?P (int j))
          = foldl (\<lambda>f i. f(?P i \<mapsto> ?V i)) (make_dirs f (Path output_dir)) [0..int k - 1] (?P (int j))"
        by (rule loop(3))
      also have "\<dots> = Some (?V (int j))"
        using inj mem by (rule foldl_upd_hit [where P = ?P and V = ?V])
      finally show "fs st' (?P (int j)) = Some (?V (int j))" .
    qed
    have untouched: "\<And>j. k < j \<Longrightarrow> fs st' (?P (int j)) = make_dirs f (Path output_dir) (?P (int j))"
    proof -
      fix j assume kj: "k < j"
      have "?P (int j) \<notin> ?P ` set [0..int k - 1]"
      proof
        assume "?P (int j) \<in> ?P ` set [0..int k - 1]"
        then obtain i where i: "i \<in> set [0..int k - 1]" and eq: "?P (int j) = ?P i" by auto
        from i have "0 \<le> i" by simp
        with eq have "int j = i"
          by (intro inj_onD [OF clip_file_inj_on, of output_dir input_file]) simp_all
        with i kj show False by simp
      qed
      then have hit: "foldl (\<lambda>f i. f(?P i \<mapsto> ?V i)) (make_dirs f (Path output_dir)) [0..int k - 1]
                   (?P (int j)) = make_dirs f (Path output_dir) (?P (int j))"
        by (rule foldl_upd_other)
      from kj have "tail = [] \<or> ?P (int j) \<noteq> ?P (int k)" using other [of j] by simp
      then have "fs st' (?P (int j))
          = foldl (\<lambda>f i. f(?P i \<mapsto> ?V i)) (make_dirs f (Path output_dir)) [0..int k - 1] (?P (int j))"
        by (rule loop(3))
      with hit show "fs st' (?P (int j)) = make_dirs f (Path output_dir) (?P (int j))" by simp
    qed
    show ?thesis
    proof (rule exI [of _ "Suc k"], rule exI [of _ buf], intro conjI allI impI)
      show "write_calls (calls st') = map (\<lambda>i. (?P i, ?C i, sample_rate)) [0..int (Suc k) - 1]"
        by (rule w)
    next
      fix p d r e assume "Write p d r (Some e) \<in> set (calls st')"
      from only [OF this] have eqs: "p = ?P (int k)" "d = ?C (int k)" "r = sample_rate" "e = e0"
        by simp_all
      show "\<exists>k'. Suc k = Suc k' \<and> res = Inl e
                  \<and> calls st'
                      = [Mkdir (str_of (Path output_dir)) None, Load input_file sample_rate (Inr buf)]
                        @ map (\<lambda>i. Write (?P i) (?C i) sample_rate None) [0..int k' - 1]
                        @ [Write p d r (Some e)]
                  \<and> p = ?P (int k') \<and> d = ?C (int k') \<and> r = sample_rate
                  \<and> (\<forall>j<k'. fs st' (?P (int j)) = Some (?V (int j)))
                  \<and> (\<forall>j>k'. fs st' (?P (int j)) = make_dirs f (Path output_dir) (?P (int j)))
                  \<and> (\<exists>before left. sf_write_fault env before p d r = Some (e, left)
                         \<and> fs st' = before(p := left))"
      proof (intro exI [of _ k] conjI allI impI)
        show "calls st'
                      = [Mkdir (str_of (Path output_dir)) None, Load input_file sample_rate (Inr buf)]
                        @ map (\<lambda>i. Write (?P i) (?C i) sample_rate None) [0..int k - 1]
                        @ [Write p d r (Some e)]"
          by (simp only: calls fault(2) eqs)
        show "\<exists>before left. sf_write_fault env before p d r = Some (e, left)
                         \<and> fs st' = before(p := left)"
          using residue by (simp only: eqs)
      qed (use eqs fault(1) kept untouched in simp_all)
    qed
  qed
qed

theorem encoding_is_sequential_and_aborts_witness:
  "Write ''out/track_clip_002.wav'' [3, 4] 1 (Some (LibraryError ''disk full''))
     \<in> set (calls (snd (convert_mp3_to_wav_clips
           (failing_env [1, 2, 3, 4, 5] ''out/track_clip_002.wav'') demo_fs ''track.mp3'' ''out'' 2 1)))
   \<and> fst (convert_mp3_to_wav_clips
           (failing_env [1, 2, 3, 4, 5] ''out/track_clip_002.wav'') demo_fs ''track.mp3'' ''out'' 2 1)
       = Inl (LibraryError ''disk full'')
   \<and> fs (snd (convert_mp3_to_wav_clips
           (failing_env [1, 2, 3, 4, 5] ''out/track_clip_002.wav'') demo_fs ''track.mp3'' ''out'' 2 1))
        ''out/track_clip_001.wav''
       = Some (Wav [1, 2] 1)
   \<and> fs (snd (convert_mp3_to_wav_clips
           (failing_env [1, 2, 3, 4, 5] ''out/track_clip_002.wav'') demo_fs ''track.mp3'' ''out'' 2 1))
        ''out/track_clip_002.wav''
       = Some (Wav [] 1)
   \<and> fs (snd (convert_mp3_to_wav_clips
           (failing_env [1, 2, 3, 4, 5] ''out/track_clip_002.wav'') demo_fs ''track.mp3'' ''out'' 2 1))
        ''out/track_clip_003.wav''
       = None"
proof -
  let ?env = "failing_env [1, 2, 3, 4, 5] ''out/track_clip_002.wav''"
  let ?run = "convert_mp3_to_wav_clips ?env demo_fs ''track.mp3'' ''out'' 2 1"
  let ?P = "\<lambda>i. str_of (clip_path (Path ''out'') (stem (Path ''track.mp3'')) i)"
  have run: "?run = (fst ?run, snd ?run)" by simp
  have W: "Write ''out/track_clip_002.wav'' [3, 4] 1 (Some (LibraryError ''disk full''))
             \<in> set (calls (snd ?run))"
    by (simp add: failing_run)
  have "fst ?run = Inl (LibraryError ''disk full'')
      \<and> fs (snd ?run) ''out/track_clip_001.wav'' = Some (Wav [1, 2] 1)
      \<and> fs (snd ?run) ''out/track_clip_002.wav'' = Some (Wav [] 1)
      \<and> fs (snd ?run) ''out/track_clip_003.wav'' = None"
    using encoding_is_sequential_and_aborts [OF run]
  proof (elim exE conjE)
    fix m buf
    assume "\<forall>p d r e. Write p d r (Some e) \<in> set (calls (snd ?run)) \<longrightarrow>
               (\<exists>k. m = Suc k \<and> fst ?run = Inl e
                  \<and> calls (snd ?run)
                      = [Mkdir (str_of (Path ''out'')) None, Load ''track.mp3'' 1 (Inr buf)]
                        @ map (\<lambda>i. Write (?P i) (padded_clip buf (2 * 1) (int (length buf)) i) 1 None)
                            [0..int k - 1]
                        @ [Write p d r (Some e)]
                  \<and> p = ?P (int k)
                  \<and> d = padded_clip buf (2 * 1) (int (length buf)) (int k)
                  \<and> r = 1
                  \<and> (\<forall>j<k. fs (snd ?run) (?P (int j))
                             = Some (Wav (map (pcm_16 ?env)
                                            (padded_clip buf (2 * 1) (int (length buf)) (int j))) 1))
                  \<and> (\<forall>j>k. fs (snd ?run) (?P (int j))
                         = make_dirs demo_fs (Path ''out'') (?P (int j)))
                  \<and> (\<exists>before left. sf_write_fault ?env before p d r = Some (e, left)
                         \<and> fs (snd ?run) = before(p := left)))"
    from this [THEN spec, THEN spec, THEN spec, THEN spec, THEN mp, OF W]
    show ?thesis
    proof (elim exE conjE)
      fix k before left
      assume res: "fst ?run = Inl (LibraryError ''disk full'')"
        and c: "calls (snd ?run)
                      = [Mkdir (str_of (Path ''out'')) None, Load ''track.mp3'' 1 (Inr buf)]
                        @ map (\<lambda>i. Write (?P i) (padded_clip buf (2 * 1) (int (length buf)) i) 1 None)
                            [0..int k - 1]
                        @ [Write ''out/track_clip_002.wav'' [3, 4] 1 (Some (LibraryError ''disk full''))]"
        and kept: "\<forall>j<k. fs (snd ?run) (?P (int j))
                             = Some (Wav (map (pcm_16 ?env)
                                            (padded_clip buf (2 * 1) (int (length buf)) (int j))) 1)"
        and rest: "\<forall>j>k. fs (snd ?run) (?P (int j))
                         = make_dirs demo_fs (Path ''out'') (?P (int j))"
        and l: "sf_write_fault ?env before ''out/track_clip_002.wav'' [3, 4] 1
                  = Some (LibraryError ''disk full'', left)"
        and f: "fs (snd ?run) = before(''out/track_clip_002.wav'' := left)"
      from arg_cong [OF c, of length] have "k = 1"
        by (simp add: failing_run)
      from c have "buf = [1, 2, 3, 4, 5]"
        by (simp add: failing_run)
      from kept [THEN spec, of 0] \<open>k = 1\<close> \<open>buf = [1, 2, 3, 4, 5]\<close>
      have f1: "fs (snd ?run) ''out/track_clip_001.wav'' = Some (Wav [1, 2] 1)"
        by (simp add: demo_paths demo_clip failing_env_def)
      from rest [THEN spec, of 2] \<open>k = 1\<close>
      have f3: "fs (snd ?run) ''out/track_clip_003.wav'' = None"
        by (simp add: demo_paths demo_untouched)
      from l have "left = Some (Wav [] 1)" by (simp add: failing_env_def)
      with f have f2: "fs (snd ?run) ''out/track_clip_002.wav'' = Some (Wav [] 1)" by simp
      from res f1 f2 f3 show ?thesis by (intro conjI)
    qed
  qed
  with W show ?thesis by (rule conjI)
qed

end
